theory Spec2Isabelle
  imports Main "HOL-Library.Sublist" "HOL-Library.Multiset"
begin

section \<open>Python strings\<close>

text \<open>
  A Python \<open>str\<close> is a sequence of code points, and the model keeps one list element per
  code point. The operations below are the built-in methods the two modules call; the
  first ones do not look at the characters and are stated for lists of any type.
\<close>

subsection \<open>join, split, replace, in\<close>

text \<open>\<^verbatim>\<open>sep.join(parts)\<close>\<close>

fun str_join :: "'a list \<Rightarrow> 'a list list \<Rightarrow> 'a list" where
  "str_join sep [] = []"
| "str_join sep [p] = p"
| "str_join sep (p # q # ps) = p @ sep @ str_join sep (q # ps)"

text \<open>
  \<^verbatim>\<open>s.split(sep)\<close> scans from the left; at each position where \<open>sep\<close> starts it closes
  the current piece and skips the separator. The source only passes non-empty literal
  separators (Python raises ValueError on an empty one), and \<open>split_from\<close> never matches
  an empty separator.
\<close>

function split_from :: "'a list \<Rightarrow> 'a list \<Rightarrow> 'a list \<Rightarrow> 'a list list" where
  "split_from sep cur [] = [cur]"
| "split_from sep cur (c # cs) =
     (if sep \<noteq> [] \<and> prefix sep (c # cs)
      then cur # split_from sep [] (drop (length sep) (c # cs))
      else split_from sep (cur @ [c]) cs)"
  by pat_completeness auto
termination
  by (relation "measure (\<lambda>(sep, cur, s). length s)") auto

definition str_split :: "'a list \<Rightarrow> 'a list \<Rightarrow> 'a list list" where
  "str_split s sep = split_from sep [] s"

text \<open>
  \<^verbatim>\<open>s.replace(old, new)\<close> replaces the occurrences of \<open>old\<close> found by the same
  left-to-right scan; an empty \<open>old\<close> matches before every character and at the end.
\<close>

function replace_from :: "'a list \<Rightarrow> 'a list \<Rightarrow> 'a list \<Rightarrow> 'a list" where
  "replace_from old new [] = []"
| "replace_from old new (c # cs) =
     (if old \<noteq> [] \<and> prefix old (c # cs)
      then new @ replace_from old new (drop (length old) (c # cs))
      else c # replace_from old new cs)"
  by pat_completeness auto
termination
  by (relation "measure (\<lambda>(old, new, s). length s)") auto

definition str_replace :: "'a list \<Rightarrow> 'a list \<Rightarrow> 'a list \<Rightarrow> 'a list" where
  "str_replace s old new =
     (if old = [] then new @ concat (map (\<lambda>c. c # new) s) else replace_from old new s)"

text \<open>\<^verbatim>\<open>sub in s\<close>\<close>

fun str_contains :: "'a list \<Rightarrow> 'a list \<Rightarrow> bool" where
  "str_contains sub [] = (sub = [])"
| "str_contains sub (c # cs) = (prefix sub (c # cs) \<or> str_contains sub cs)"

text \<open>\<^verbatim>\<open>xs[i]\<close> for a non-negative index raises IndexError out of range.\<close>

datatype py_error = IndexError | KeyError

definition index :: "'a list \<Rightarrow> nat \<Rightarrow> py_error + 'a" where
  "index xs i = (if i < length xs then Inr (xs ! i) else Inl IndexError)"

subsection \<open>Code points, case mapping and whitespace\<close>

text \<open>
  The strings of the model range over the code points below 256 (ASCII and Latin-1, which
  holds the accented letters of the repository's own examples) and over the three code
  points that Python's case mappings of those reach: U+0178, U+039C and U+03BC. On every
  code point of this range \<^verbatim>\<open>islower\<close>, \<^verbatim>\<open>isupper\<close>, \<^verbatim>\<open>lower\<close>, \<^verbatim>\<open>upper\<close>, \<^verbatim>\<open>title\<close>
  and \<^verbatim>\<open>isspace\<close> below are Python's, and the range is closed under them. \<^verbatim>\<open>upper\<close> and
  \<^verbatim>\<open>title\<close> of one character are strings: for U+00DF they are \<open>"SS"\<close> and \<open>"Ss"\<close>. Text
  with any other code point is outside the model.
\<close>

datatype codepoint = Latin1 char | U0178 | U039C | U03BC

type_synonym str = "codepoint list"

abbreviation lit :: "string \<Rightarrow> str" where
  "lit s \<equiv> map Latin1 s"

definition islower :: "codepoint \<Rightarrow> bool" where
  "islower c = (case c of
     Latin1 a \<Rightarrow> (let n = (of_char a :: nat) in
       (97 \<le> n \<and> n \<le> 122) \<or> n = 170 \<or> n = 181 \<or> n = 186 \<or>
       (223 \<le> n \<and> n \<le> 246) \<or> (248 \<le> n \<and> n \<le> 255))
   | U0178 \<Rightarrow> False | U039C \<Rightarrow> False | U03BC \<Rightarrow> True)"

definition isupper :: "codepoint \<Rightarrow> bool" where
  "isupper c = (case c of
     Latin1 a \<Rightarrow> (let n = (of_char a :: nat) in
       (65 \<le> n \<and> n \<le> 90) \<or> (192 \<le> n \<and> n \<le> 214) \<or> (216 \<le> n \<and> n \<le> 222))
   | U0178 \<Rightarrow> True | U039C \<Rightarrow> True | U03BC \<Rightarrow> False)"

definition lower_char :: "codepoint \<Rightarrow> codepoint" where
  "lower_char c = (case c of
     Latin1 a \<Rightarrow> (if isupper c then Latin1 (char_of (of_char a + (32::nat))) else c)
   | U0178 \<Rightarrow> Latin1 (CHR 0xFF) | U039C \<Rightarrow> U03BC | U03BC \<Rightarrow> U03BC)"

definition upper_char :: "codepoint \<Rightarrow> str" where
  "upper_char c = (case c of
     Latin1 a \<Rightarrow> (let n = (of_char a :: nat) in
       if n = 223 then lit ''SS''
       else if n = 181 then [U039C]
       else if n = 255 then [U0178]
       else if (97 \<le> n \<and> n \<le> 122) \<or> (224 \<le> n \<and> n \<le> 246) \<or> (248 \<le> n \<and> n \<le> 254)
       then [Latin1 (char_of (n - 32))] else [c])
   | U0178 \<Rightarrow> [U0178] | U039C \<Rightarrow> [U039C] | U03BC \<Rightarrow> [U039C])"

definition title_char :: "codepoint \<Rightarrow> str" where
  "title_char c = (if c = Latin1 (CHR 0xDF) then lit ''Ss'' else upper_char c)"

definition str_lower :: "str \<Rightarrow> str" where
  "str_lower s = map lower_char s"

definition str_upper :: "str \<Rightarrow> str" where
  "str_upper s = concat (map upper_char s)"

text \<open>
  \<^verbatim>\<open>s.title()\<close>: a character that follows a cased character is lower-cased, any other
  is title-cased.
\<close>

fun title_from :: "bool \<Rightarrow> str \<Rightarrow> str" where
  "title_from previous_is_cased [] = []"
| "title_from previous_is_cased (c # cs) =
     (if previous_is_cased then [lower_char c] else title_char c)
       @ title_from (islower c \<or> isupper c) cs"

definition str_title :: "str \<Rightarrow> str" where
  "str_title s = title_from False s"

definition isspace :: "codepoint \<Rightarrow> bool" where
  "isspace c = (case c of
     Latin1 a \<Rightarrow> (let n = (of_char a :: nat) in
       (9 \<le> n \<and> n \<le> 13) \<or> (28 \<le> n \<and> n \<le> 32) \<or> n = 133 \<or> n = 160)
   | U0178 \<Rightarrow> False | U039C \<Rightarrow> False | U03BC \<Rightarrow> False)"

text \<open>\<^verbatim>\<open>s.strip()\<close>\<close>

definition str_strip :: "str \<Rightarrow> str" where
  "str_strip s = rev (dropWhile isspace (rev (dropWhile isspace s)))"

subsection \<open>Integers in f-strings\<close>

definition digit_char :: "nat \<Rightarrow> codepoint" where
  "digit_char d = Latin1 (char_of (48 + d))"

function show_nat :: "nat \<Rightarrow> str" where
  "show_nat n = (if n < 10 then [digit_char n] else show_nat (n div 10) @ [digit_char (n mod 10)])"
  by pat_completeness auto
termination
  by (relation "measure (\<lambda>n. n)") auto

declare show_nat.simps [simp del]

definition show_int :: "int \<Rightarrow> str" where
  "show_int i = (if i < 0 then Latin1 (CHR ''-'') # show_nat (nat (- i)) else show_nat (nat i))"

abbreviation backslash :: str where
  "backslash \<equiv> [Latin1 (CHR 0x5C)]"

abbreviation newline :: str where
  "newline \<equiv> [Latin1 (CHR 0x0A)]"

section \<open>scraper.py\<close>

text \<open>\<^verbatim>\<open>unify_pseudonyms\<close>: the loop over the pseudonyms, each replaced in the running string.\<close>

fun unify_pseudonyms :: "str \<Rightarrow> str list \<Rightarrow> str \<Rightarrow> str" where
  "unify_pseudonyms input_string [] name = input_string"
| "unify_pseudonyms input_string (pseudonym # pseudonyms) name =
     unify_pseudonyms (str_replace input_string pseudonym name) pseudonyms name"

text \<open>
  \<^verbatim>\<open>format_names\<close>: \<open>format_name\<close> is the body of the loop over the names,
  \<open>format_loop\<close> the loop appending to \<^verbatim>\<open>formatted_names\<close>. \<^verbatim>\<open>split\<close> never returns an
  empty list, so \<^verbatim>\<open>name.split(" ")[0]\<close> cannot raise; \<^verbatim>\<open>initials[0]\<close> is read only when
  the token has at least three characters.
\<close>

definition format_name :: "str \<Rightarrow> str" where
  "format_name name =
     (let surname = str_join (lit '' '') (tl (str_split name (lit '' '')));
          initials = hd (str_split name (lit '' ''));
          isname = (length initials \<ge> 3);
          initials = (if isname then [initials ! 0] else initials);
          initials = str_upper initials;
          initials = str_join (lit ''.'') (map (\<lambda>c. [c]) initials) @ lit ''.''
      in str_join (lit '' '') [initials, surname])"

fun format_loop :: "str list \<Rightarrow> str list \<Rightarrow> str list" where
  "format_loop [] formatted_names = formatted_names"
| "format_loop (name # names) formatted_names =
     format_loop names (formatted_names @ [format_name name])"

definition format_names :: "str \<Rightarrow> str" where
  "format_names name_string =
     (let names = str_split name_string (lit '', '') in str_join (lit '', '') (format_loop names []))"

text \<open>
  \<^verbatim>\<open>getGSdata\<close>. The browser session is outside the model: \<open>scraped\<close> holds what the loop
  over the rows has read from the list view and the detail view of one paper (the year
  already parsed by \<^verbatim>\<open>int\<close>, the citation count already defaulted to 0, the venue and the
  author text as displayed, before \<^verbatim>\<open>.title()\<close>). \<open>paperInfo\<close> is the string processing of
  the loop body, \<open>getGSdata_loop\<close> the loop appending to \<^verbatim>\<open>infoList\<close>; the body has no
  handler around it, so an exception ends the run. The source calls
  \<^verbatim>\<open>unify_pseudonyms(authors, pseudonyms, name)\<close> as a statement and does not bind what it
  returns: \<open>discarded\<close> below.
\<close>

record scraped =
  gs_title :: str
  gs_reference :: str
  gs_year :: int
  gs_citations :: int
  gs_paperlink :: str
  gs_citeyears :: "str list"
  gs_journal :: str
  gs_authors :: str

record paper =
  title :: str
  authors :: str
  reference :: str
  journal :: str
  year :: int
  citations :: int
  url :: str
  citationsyears :: "str list"
  isarxiv :: bool

definition paperInfo :: "str \<Rightarrow> str list \<Rightarrow> scraped \<Rightarrow> py_error + paper" where
  "paperInfo name pseudonyms row =
     (let journalTitle = str_title (gs_journal row);
          authors = str_title (gs_authors row);
          discarded = unify_pseudonyms authors pseudonyms name;
          authors_formatted = format_names authors;
          isarxiv = str_contains (lit ''arxiv'') (str_lower journalTitle)
      in if isarxiv
         then (case index (str_split (gs_reference row) (lit ''arXiv:'')) 1 of
                 Inl e \<Rightarrow> Inl e
               | Inr rest \<Rightarrow>
                   Inr \<lparr>title = gs_title row, authors = authors_formatted,
                        reference = lit ''arXiv: '' @ rest, journal = lit ''arXiv'',
                        year = gs_year row, citations = gs_citations row,
                        url = gs_paperlink row, citationsyears = gs_citeyears row,
                        isarxiv = isarxiv\<rparr>)
         else Inr \<lparr>title = gs_title row, authors = authors_formatted,
                   reference = gs_reference row, journal = journalTitle,
                   year = gs_year row, citations = gs_citations row,
                   url = gs_paperlink row, citationsyears = gs_citeyears row,
                   isarxiv = isarxiv\<rparr>)"

fun getGSdata_loop :: "str \<Rightarrow> str list \<Rightarrow> scraped list \<Rightarrow> paper list \<Rightarrow> py_error + paper list" where
  "getGSdata_loop name pseudonyms [] infoList = Inr infoList"
| "getGSdata_loop name pseudonyms (row # rows) infoList =
     (case paperInfo name pseudonyms row of
        Inl e \<Rightarrow> Inl e
      | Inr p \<Rightarrow> getGSdata_loop name pseudonyms rows (infoList @ [p]))"

definition getGSdata :: "scraped list \<Rightarrow> str \<Rightarrow> str list \<Rightarrow> py_error + paper list" where
  "getGSdata rows name pseudonyms = getGSdata_loop name pseudonyms rows []"

section \<open>reporter.py\<close>

text \<open>
  \<^verbatim>\<open>generate_latex_report\<close>. The counters the first loop updates are the fields of
  \<open>report_state\<close>; \<^verbatim>\<open>journal_counts\<close> is a dictionary keyed by the lower-cased tracked
  journal names.
\<close>

record journal_count =
  jc_count :: nat
  jc_first_author :: nat
  jc_last_author :: nat

record report_state =
  peer_reviewed_count :: nat
  first_author_count :: nat
  last_author_count :: nat
  journal_counts :: "str \<rightharpoonup> journal_count"
  latex_snippet :: str
  total_citations :: int
  citation_counts :: "int list"

definition init_state :: "str list \<Rightarrow> report_state" where
  "init_state journals_to_count =
     \<lparr>peer_reviewed_count = 0, first_author_count = 0, last_author_count = 0,
      journal_counts = map_of (map (\<lambda>journal. (str_lower journal,
          \<lparr>jc_count = 0, jc_first_author = 0, jc_last_author = 0\<rparr>)) journals_to_count),
      latex_snippet = backslash @ lit ''begin{enumerate}'' @ newline,
      total_citations = 0, citation_counts = []\<rparr>"

text \<open>The three guarded increments \<^verbatim>\<open>if k in journal_counts: journal_counts[k][field] += 1\<close>.\<close>

definition bump_first :: "str \<Rightarrow> (str \<rightharpoonup> journal_count) \<Rightarrow> (str \<rightharpoonup> journal_count)" where
  "bump_first k jcs =
     (case jcs k of None \<Rightarrow> jcs
      | Some jc \<Rightarrow> jcs(k \<mapsto> jc\<lparr>jc_first_author := jc_first_author jc + 1\<rparr>))"

definition bump_last :: "str \<Rightarrow> (str \<rightharpoonup> journal_count) \<Rightarrow> (str \<rightharpoonup> journal_count)" where
  "bump_last k jcs =
     (case jcs k of None \<Rightarrow> jcs
      | Some jc \<Rightarrow> jcs(k \<mapsto> jc\<lparr>jc_last_author := jc_last_author jc + 1\<rparr>))"

definition bump_count :: "str \<Rightarrow> (str \<rightharpoonup> journal_count) \<Rightarrow> (str \<rightharpoonup> journal_count)" where
  "bump_count k jcs =
     (case jcs k of None \<Rightarrow> jcs
      | Some jc \<Rightarrow> jcs(k \<mapsto> jc\<lparr>jc_count := jc_count jc + 1\<rparr>))"

text \<open>The entry the first loop appends for a peer-reviewed paper.\<close>

definition peer_entry :: "str \<Rightarrow> paper \<Rightarrow> str" where
  "peer_entry name row =
     (let reference = str_title (reference row);
          authors_bolded = str_replace (authors row) name (backslash @ lit ''textbf{'' @ name @ lit ''}'')
      in lit '' '' @ backslash @ lit ''item '' @ backslash @ lit ''emph{'' @ title row @ lit ''}.''
           @ backslash @ backslash @ lit '' '' @ newline
         @ lit ''{'' @ authors_bolded @ lit ''}'' @ backslash @ backslash @ lit '' '' @ newline
         @ lit ''  '' @ backslash @ lit ''href{'' @ url row @ lit ''}{{'' @ reference @ lit '' (''
           @ show_int (year row) @ lit '')}}'' @ newline @ newline)"

text \<open>The body of the loop over the rows that are not preprints.\<close>

definition peer_step :: "str \<Rightarrow> report_state \<Rightarrow> paper \<Rightarrow> report_state" where
  "peer_step name st row =
     (let authors_list = map str_strip (str_split (authors row) (lit '',''));
          is_first_author = (hd authors_list = name);
          is_last_author = (last authors_list = name);
          journal_lower = str_lower (journal row);
          jcs = journal_counts st;
          jcs = (if is_first_author then bump_first journal_lower jcs else jcs);
          jcs = (if is_last_author then bump_last journal_lower jcs else jcs);
          jcs = bump_count journal_lower jcs
      in \<lparr>peer_reviewed_count = peer_reviewed_count st + 1,
          first_author_count = first_author_count st + (if is_first_author then 1 else 0),
          last_author_count = last_author_count st + (if is_last_author then 1 else 0),
          journal_counts = jcs,
          latex_snippet = latex_snippet st @ peer_entry name row,
          total_citations = total_citations st + citations row,
          citation_counts = citation_counts st @ [citations row]\<rparr>)"

definition peer_loop :: "paper list \<Rightarrow> str \<Rightarrow> str list \<Rightarrow> report_state" where
  "peer_loop df_papers name journals_to_count =
     foldl (peer_step name) (init_state journals_to_count)
       (filter (\<lambda>row. isarxiv row = False) df_papers)"

text \<open>The h-index loop over the citation counts sorted in descending order.\<close>

fun h_loop :: "nat \<Rightarrow> nat \<Rightarrow> int list \<Rightarrow> nat" where
  "h_loop i h_index [] = h_index"
| "h_loop i h_index (citation # rest) =
     (if citation \<ge> int i + 1 then h_loop (i + 1) (i + 1) rest else h_index)"

definition sorted_citations :: "int list \<Rightarrow> int list" where
  "sorted_citations counts = rev (sort counts)"

definition h_index :: "int list \<Rightarrow> nat" where
  "h_index counts = h_loop 0 0 (sorted_citations counts)"

text \<open>
  The loop building \<^verbatim>\<open>journal_report\<close>. The lookup \<^verbatim>\<open>journal_counts[journal_lower]\<close> is
  not guarded in the source, so the model raises KeyError on a missing key.
\<close>

definition journal_str :: "str \<Rightarrow> journal_count \<Rightarrow> str" where
  "journal_str j jc =
     show_nat (jc_count jc) @ lit '' '' @ j @
     (if jc_first_author jc > 0 \<and> jc_last_author jc > 0
      then lit '' ('' @ show_nat (jc_first_author jc) @ lit '' first author, ''
             @ show_nat (jc_last_author jc) @ lit '' last author)''
      else if jc_first_author jc > 0
      then lit '' ('' @ show_nat (jc_first_author jc) @ lit '' first author)''
      else if jc_last_author jc > 0
      then lit '' ('' @ show_nat (jc_last_author jc) @ lit '' last author)''
      else [])"

fun journal_report_loop ::
  "(str \<rightharpoonup> journal_count) \<Rightarrow> str list \<Rightarrow> str list \<Rightarrow> py_error + str list" where
  "journal_report_loop jcs [] journal_report = Inr journal_report"
| "journal_report_loop jcs (j # js) journal_report =
     (case jcs (str_lower j) of
        None \<Rightarrow> Inl KeyError
      | Some jc \<Rightarrow>
          if jc_count jc > 0
          then journal_report_loop jcs js (journal_report @ [journal_str j jc])
          else journal_report_loop jcs js journal_report)"

text \<open>The statistics paragraph; the date string is read from the clock by the source.\<close>

definition statistics_text :: "report_state \<Rightarrow> str list \<Rightarrow> str \<Rightarrow> str" where
  "statistics_text st journal_report current_date =
     newline @ show_nat (peer_reviewed_count st) @ lit '' peer-reviewed publications, ''
       @ show_nat (first_author_count st) @ lit '' papers as first author, ''
       @ show_nat (last_author_count st) @ lit '' papers as last author.'' @ newline
     @ (if journal_report \<noteq> []
        then lit ''These include '' @ str_join (lit '', '') journal_report @ lit ''.'' @ newline else [])
     @ backslash @ lit ''textbf{h-index: '' @ show_nat (h_index (citation_counts st))
       @ lit ''. Citations: '' @ show_int (total_citations st)
       @ lit ''} (Google Scholar, as of '' @ current_date @ lit '').''"

text \<open>The entry the second loop appends for a preprint.\<close>

definition preprint_entry :: "str \<Rightarrow> paper \<Rightarrow> str" where
  "preprint_entry name row =
     (let reference = reference row;
          authors_bolded = str_replace (authors row) name (backslash @ lit ''textbf{'' @ name @ lit ''}'')
      in lit '' '' @ backslash @ lit ''item '' @ backslash @ lit ''emph{'' @ title row @ lit ''}.''
           @ backslash @ backslash @ lit '' '' @ newline
         @ lit ''{'' @ authors_bolded @ lit ''}'' @ backslash @ backslash @ lit '' '' @ newline
         @ lit ''  '' @ backslash @ lit ''href{'' @ url row @ lit ''}{{'' @ reference @ lit '' (''
           @ show_int (year row) @ lit '')}}'' @ newline @ newline)"

definition preprint_loop :: "paper list \<Rightarrow> str \<Rightarrow> str \<Rightarrow> str" where
  "preprint_loop df_papers name snippet =
     foldl (\<lambda>latex_snippet row. latex_snippet @ preprint_entry name row) snippet
       (filter (\<lambda>row. isarxiv row = True) df_papers)"

text \<open>The text of the report: the statistics paragraph and the two lists.\<close>

definition report_statistics :: "paper list \<Rightarrow> str \<Rightarrow> str \<Rightarrow> str list \<Rightarrow> py_error + str" where
  "report_statistics df_papers name current_date journals_to_count =
     (let st = peer_loop df_papers name journals_to_count
      in case journal_report_loop (journal_counts st) journals_to_count [] of
           Inl e \<Rightarrow> Inl e
         | Inr journal_report \<Rightarrow> Inr (statistics_text st journal_report current_date))"

definition report_snippet :: "paper list \<Rightarrow> str \<Rightarrow> str list \<Rightarrow> str" where
  "report_snippet df_papers name journals_to_count =
     (let st = peer_loop df_papers name journals_to_count;
          latex_snippet = latex_snippet st @ backslash @ lit ''end{enumerate}'' @ newline;
          latex_snippet = latex_snippet @ newline @ backslash @ lit ''begin{center}'' @ newline
            @ backslash @ lit ''textsc{Preprints}'' @ newline @ backslash @ lit ''end{center}'' @ newline;
          latex_snippet = latex_snippet @ backslash @ lit ''begin{enumerate}'' @ newline;
          latex_snippet = preprint_loop df_papers name latex_snippet
      in latex_snippet @ backslash @ lit ''end{enumerate}'' @ newline)"

definition generate_latex_report ::
  "paper list \<Rightarrow> str \<Rightarrow> str \<Rightarrow> str list \<Rightarrow> py_error + str" where
  "generate_latex_report df_papers name current_date journals_to_count =
     (case report_statistics df_papers name current_date journals_to_count of
        Inl e \<Rightarrow> Inl e
      | Inr statistics \<Rightarrow>
          Inr (statistics @ newline @ newline
               @ report_snippet df_papers name journals_to_count))"

definition default_journals :: "str list" where
  "default_journals = [lit ''Nature Photonics'', lit ''Nature Communications'', lit ''Nature Materials'',
     (lit ''Science Advances''), lit ''Physical Review Letters'', lit ''PRX'', lit ''PRX Quantum'']"

section \<open>Auxiliary notions\<close>

text \<open>
  The letters of \<open>"arxiv"\<close>. Title-casing a character gives either one character with the
  same lower case, or characters whose lower case is none of these letters, in place of a
  character whose lower case is none of them either.
\<close>

definition arxiv_letters :: "codepoint set" where
  "arxiv_letters = set (lit ''arxiv'')"

section \<open>Readings of the specification\<close>

text \<open>
  The specification's "substring after \<open>sep\<close>" of a string: everything that follows
  the first occurrence of \<open>sep\<close>. It is compared below with what the source takes,
  \<^verbatim>\<open>reference.split('arXiv:')[1]\<close>.
\<close>

fun spec_substring_after :: "'a list \<Rightarrow> 'a list \<Rightarrow> 'a list" where
  "spec_substring_after sep [] = []"
| "spec_substring_after sep (c # cs) =
     (if prefix sep (c # cs) then drop (length sep) (c # cs) else spec_substring_after sep cs)"

text \<open>
  The statistics of the specification, as counts over the record set: the first and the
  last comma-separated entry of a record's author list (surrounding whitespace removed),
  and for a tracked venue the peer-reviewed records whose journal matches it in any letter
  case, with the phrase the statistics paragraph shows for the venue.
\<close>

definition first_entry :: "paper \<Rightarrow> str" where
  "first_entry r = str_strip (hd (str_split (authors r) (lit '','')))"

definition last_entry :: "paper \<Rightarrow> str" where
  "last_entry r = str_strip (last (str_split (authors r) (lit '','')))"

definition peer_reviewed :: "paper list \<Rightarrow> paper list" where
  "peer_reviewed df = filter (\<lambda>r. \<not> isarxiv r) df"

definition venue_rows :: "paper list \<Rightarrow> str \<Rightarrow> paper list" where
  "venue_rows df j = filter (\<lambda>r. str_lower (journal r) = str_lower j) (peer_reviewed df)"

definition venue_count :: "paper list \<Rightarrow> str \<Rightarrow> nat" where
  "venue_count df j = length (venue_rows df j)"

definition venue_first :: "paper list \<Rightarrow> str \<Rightarrow> str \<Rightarrow> nat" where
  "venue_first df name j = length (filter (\<lambda>r. first_entry r = name) (venue_rows df j))"

definition venue_last :: "paper list \<Rightarrow> str \<Rightarrow> str \<Rightarrow> nat" where
  "venue_last df name j = length (filter (\<lambda>r. last_entry r = name) (venue_rows df j))"

definition venue_phrase :: "paper list \<Rightarrow> str \<Rightarrow> str \<Rightarrow> str" where
  "venue_phrase df name j =
     show_nat (venue_count df j) @ lit '' '' @ j @
     (if venue_first df name j > 0 \<and> venue_last df name j > 0
      then lit '' ('' @ show_nat (venue_first df name j) @ lit '' first author, ''
             @ show_nat (venue_last df name j) @ lit '' last author)''
      else if venue_first df name j > 0
      then lit '' ('' @ show_nat (venue_first df name j) @ lit '' first author)''
      else if venue_last df name j > 0
      then lit '' ('' @ show_nat (venue_last df name j) @ lit '' last author)''
      else [])"

text \<open>
  The per-name format in the specification's words: the name is cut into its
  whitespace-delimited tokens (the maximal runs of characters that are not whitespace);
  the first token, reduced to its first letter when it has three or more characters, is
  upper-cased and followed character by character by a period, and joined by a space with
  the remaining tokens, themselves joined by spaces.
\<close>

fun spec_tokens_from :: "str \<Rightarrow> str \<Rightarrow> str list" where
  "spec_tokens_from cur [] = (if cur = [] then [] else [cur])"
| "spec_tokens_from cur (c # cs) =
     (if isspace c then (if cur = [] then [] else [cur]) @ spec_tokens_from [] cs
      else spec_tokens_from (cur @ [c]) cs)"

definition spec_format_name :: "str \<Rightarrow> str" where
  "spec_format_name name =
     (case spec_tokens_from [] name of
        [] \<Rightarrow> []
      | token # remaining \<Rightarrow>
          concat (map (\<lambda>c. [c, Latin1 (CHR ''.'')])
            (str_upper (if length token \<ge> 3 then take 1 token else token)))
          @ lit '' '' @ str_join (lit '' '') remaining)"

definition spec_format_names :: "str \<Rightarrow> str" where
  "spec_format_names name_string =
     str_join (lit '', '') (map spec_format_name (str_split name_string (lit '', '')))"

section \<open>Facts about the string operations\<close>

lemmas case_eval =
  str_title_def title_char_def upper_char_def lower_char_def islower_def isupper_def
  str_lower_def str_upper_def char_of_eq_iff

lemma str_contains_iff: "str_contains sub s \<longleftrightarrow> sublist sub s"
  by (induction s) (auto simp: sublist_Cons_right)

lemma str_join_Cons: "ps \<noteq> [] \<Longrightarrow> str_join sep (p # ps) = p @ sep @ str_join sep ps"
  by (cases ps) simp_all

lemma split_from_ne: "split_from sep cur s \<noteq> []"
  by (induction sep cur s rule: split_from.induct) auto

lemma str_split_ne: "str_split s sep \<noteq> []"
  by (simp add: str_split_def split_from_ne)

lemma join_split_replace: "str_join new (split_from old cur s) = cur @ replace_from old new s"
proof (induction old cur s rule: split_from.induct)
  case (1 sep cur)
  then show ?case by simp
next
  case (2 sep cur c cs)
  show ?case
  proof (cases "sep \<noteq> [] \<and> prefix sep (c # cs)")
    case True
    with 2 show ?thesis by (simp add: str_join_Cons split_from_ne)
  next
    case False
    with 2 show ?thesis by auto
  qed
qed

lemma replace_from_same_aux: "new = old \<Longrightarrow> replace_from old new s = s"
proof (induction old new s rule: replace_from.induct)
  case (1 old new)
  then show ?case by simp
next
  case (2 old new c cs)
  show ?case
  proof (cases "old \<noteq> [] \<and> prefix old (c # cs)")
    case True
    then have r: "old @ drop (length old) (c # cs) = c # cs"
      by (metis append_eq_conv_conj prefix_def)
    have "replace_from old new (c # cs) = new @ replace_from old new (drop (length old) (c # cs))"
      using True by simp
    also have "\<dots> = old @ drop (length old) (c # cs)"
      using 2 True by simp
    finally show ?thesis using r by simp
  next
    case False
    with 2 show ?thesis by auto
  qed
qed

lemma join_split: "str_join sep (str_split s sep) = s"
  by (simp add: str_split_def join_split_replace replace_from_same_aux)

lemma replace_is_join_split: "old \<noteq> [] \<Longrightarrow> str_replace s old new = str_join new (str_split s old)"
  by (simp add: str_replace_def str_split_def join_split_replace)

lemma split_from_free:
  assumes "sep \<noteq> []"
    and "\<forall>ps ss. cur @ s = ps @ sep @ ss \<longrightarrow> length cur \<le> length ps"
  shows "\<forall>q \<in> set (split_from sep cur s). \<not> sublist sep q"
  using assms
proof (induction sep cur s rule: split_from.induct)
  case (1 sep cur)
  have "\<not> sublist sep cur"
  proof
    assume "sublist sep cur"
    then obtain ps ss where e: "cur = ps @ sep @ ss" by (auto simp: sublist_def)
    with 1 have "length cur \<le> length ps" by auto
    with e 1(1) show False by auto
  qed
  then show ?case by simp
next
  case (2 sep cur c cs)
  show ?case
  proof (cases "prefix sep (c # cs)")
    case True
    have "\<not> sublist sep cur"
    proof
      assume "sublist sep cur"
      then obtain ps ss where e: "cur = ps @ sep @ ss" by (auto simp: sublist_def)
      then have "cur @ c # cs = ps @ sep @ (ss @ c # cs)" by simp
      with 2(4) have "length cur \<le> length ps" by blast
      with e 2(3) show False by auto
    qed
    moreover have "\<forall>q \<in> set (split_from sep [] (drop (length sep) (c # cs))). \<not> sublist sep q"
      using 2(1) True 2(3) by simp
    ultimately show ?thesis using True 2(3) by simp
  next
    case False
    have "\<forall>ps ss. (cur @ [c]) @ cs = ps @ sep @ ss \<longrightarrow> length (cur @ [c]) \<le> length ps"
    proof (intro allI impI)
      fix ps ss assume e: "(cur @ [c]) @ cs = ps @ sep @ ss"
      then have e': "cur @ c # cs = ps @ sep @ ss" by simp
      with 2(4) have le: "length cur \<le> length ps" by blast
      have "length ps \<noteq> length cur"
      proof
        assume "length ps = length cur"
        with e' have "c # cs = sep @ ss" by (metis append_eq_append_conv)
        with False show False by (simp add: prefix_def)
      qed
      with le show "length (cur @ [c]) \<le> length ps" by simp
    qed
    with 2(2) False 2(3) show ?thesis by simp
  qed
qed

lemma str_split_free: "sep \<noteq> [] \<Longrightarrow> q \<in> set (str_split s sep) \<Longrightarrow> \<not> str_contains sep q"
  using split_from_free[of sep "[]" s] by (simp add: str_split_def str_contains_iff)

lemma replace_absent: "\<not> str_contains old s \<Longrightarrow> replace_from old new s = s"
  by (induction s) auto

lemma str_replace_absent: "\<not> str_contains old s \<Longrightarrow> str_replace s old new = s"
  by (cases "old = []") (auto simp: str_replace_def replace_absent str_contains_iff)

lemma unify_append:
  "unify_pseudonyms s (ps @ [p]) name = str_replace (unify_pseudonyms s ps name) p name"
  by (induction ps arbitrary: s) simp_all

lemma unify_fold: "unify_pseudonyms s ps name = foldl (\<lambda>acc p. str_replace acc p name) s ps"
  by (induction ps arbitrary: s) simp_all

lemma unify_absent: "\<forall>q \<in> set ps. \<not> str_contains q s \<Longrightarrow> unify_pseudonyms s ps name = s"
  by (induction ps) (simp_all add: str_replace_absent)

text \<open>
  C8. \<^verbatim>\<open>unify_pseudonyms\<close> replaces the pseudonyms in the order of the list, each
  replacement working on the result of the ones before it. One replacement cuts the string
  at the occurrences of the pseudonym found from left to right (no piece between two cuts
  contains the pseudonym, and the pieces joined by the pseudonym give the string back) and
  joins the pieces by the name. A pseudonym that does not occur leaves the string as it is,
  and so does a whole list of them. The example of the specification holds.
\<close>

theorem unify_pseudonyms_replaces_in_order:
  "unify_pseudonyms s ps name = foldl (\<lambda>acc p. str_replace acc p name) s ps
   \<and> unify_pseudonyms s (ps @ [p]) name = str_replace (unify_pseudonyms s ps name) p name
   \<and> (p \<noteq> [] \<longrightarrow>
        str_replace s p name = str_join name (str_split s p)
        \<and> str_join p (str_split s p) = s
        \<and> (\<forall>q \<in> set (str_split s p). \<not> str_contains p q))
   \<and> (\<not> str_contains p s \<longrightarrow> str_replace s p name = s)
   \<and> ((\<forall>q \<in> set ps. \<not> str_contains q s) \<longrightarrow> unify_pseudonyms s ps name = s)
   \<and> unify_pseudonyms (lit ''CS Munoz did X'') [lit ''CS Munoz'']
        (lit (''C. S'' @ [CHR 0xE1] @ ''nchez Mu'' @ [CHR 0xF1] @ ''oz''))
      = lit ''C. S'' @ [Latin1 (CHR 0xE1)] @ lit ''nchez Mu'' @ [Latin1 (CHR 0xF1)] @ lit ''oz did X''"
proof -
  have ex: "unify_pseudonyms (lit ''CS Munoz did X'') [lit ''CS Munoz'']
        (lit (''C. S'' @ [CHR 0xE1] @ ''nchez Mu'' @ [CHR 0xF1] @ ''oz''))
      = lit ''C. S'' @ [Latin1 (CHR 0xE1)] @ lit ''nchez Mu'' @ [Latin1 (CHR 0xF1)] @ lit ''oz did X''"
    by (simp add: str_replace_def)
  have a: "unify_pseudonyms s ps name = foldl (\<lambda>acc p. str_replace acc p name) s ps"
    by (rule unify_fold)
  have b: "unify_pseudonyms s (ps @ [p]) name = str_replace (unify_pseudonyms s ps name) p name"
    by (rule unify_append)
  have c: "p \<noteq> [] \<longrightarrow>
        str_replace s p name = str_join name (str_split s p)
        \<and> str_join p (str_split s p) = s
        \<and> (\<forall>q \<in> set (str_split s p). \<not> str_contains p q)"
    using replace_is_join_split[of p s name] join_split[of p s] str_split_free[of p _ s] by blast
  have d: "\<not> str_contains p s \<longrightarrow> str_replace s p name = s"
    by (simp add: str_replace_absent)
  have e: "(\<forall>q \<in> set ps. \<not> str_contains q s) \<longrightarrow> unify_pseudonyms s ps name = s"
    by (simp add: unify_absent)
  from a b c d e ex show ?thesis by (intro conjI)
qed

theorem unify_pseudonyms_replaces_in_order_witness:
  "(lit ''C S Munoz'') \<noteq> [] \<and> \<not> str_contains (lit ''C S Munoz'') (lit ''A Smith, B Jones'')
   \<and> \<not> str_contains (lit ''CS Munoz'') (lit ''A Smith, B Jones'')
   \<and> \<not> str_contains (lit ''C Munoz'') (lit ''A Smith, B Jones'')
   \<and> str_replace (lit ''A Smith, B Jones'') (lit ''C S Munoz'') (lit ''C. Munoz'') = lit ''A Smith, B Jones''
   \<and> unify_pseudonyms (lit ''A Smith, B Jones'') [lit ''CS Munoz'', lit ''C Munoz''] (lit ''C. Munoz'')
       = lit ''A Smith, B Jones''
   \<and> str_join (lit ''C S Munoz'') (str_split (lit ''A Smith, B Jones'') (lit ''C S Munoz'')) = lit ''A Smith, B Jones''"
proof -
  have h1: "(lit ''C S Munoz'') \<noteq> []" by simp
  have h2: "\<not> str_contains (lit ''C S Munoz'') (lit ''A Smith, B Jones'')" by simp
  have h3: "\<forall>q \<in> set [lit ''CS Munoz'', lit ''C Munoz'']. \<not> str_contains q (lit ''A Smith, B Jones'')" by simp
  note t = unify_pseudonyms_replaces_in_order [of "(lit ''A Smith, B Jones'')" "[lit ''CS Munoz'', lit ''C Munoz'']"
        "(lit ''C. Munoz'')" "(lit ''C S Munoz'')"]
  from t h1 have j: "str_join (lit ''C S Munoz'') (str_split (lit ''A Smith, B Jones'') (lit ''C S Munoz'')) = lit ''A Smith, B Jones''"
    by (elim conjE) (erule (1) impE, elim conjE, assumption)
  from t h2 have r: "str_replace (lit ''A Smith, B Jones'') (lit ''C S Munoz'') (lit ''C. Munoz'') = lit ''A Smith, B Jones''"
    by (elim conjE) (erule (1) impE, assumption)
  from t h3 have u: "unify_pseudonyms (lit ''A Smith, B Jones'') [lit ''CS Munoz'', lit ''C Munoz''] (lit ''C. Munoz'')
       = lit ''A Smith, B Jones''"
    by (elim conjE) (erule (1) impE, assumption)
  have h4: "\<not> str_contains (lit ''CS Munoz'') (lit ''A Smith, B Jones'')"
    and h5: "\<not> str_contains (lit ''C Munoz'') (lit ''A Smith, B Jones'')" by simp_all
  from h1 h2 h4 h5 r u j show ?thesis by (intro conjI)
qed

section \<open>Facts about \<open>format_names\<close>\<close>

lemma format_loop_map: "format_loop names acc = acc @ map format_name names"
  by (induction names arbitrary: acc) simp_all

lemma dotted_nonempty:
  "ini \<noteq> [] \<Longrightarrow> str_join (lit ''.'') (map (\<lambda>c. [c]) ini) @ lit ''.'' = concat (map (\<lambda>c. [c, Latin1 (CHR ''.'')]) ini)"
proof (induction ini)
  case Nil
  then show ?case by simp
next
  case (Cons c ini)
  show ?case
  proof (cases "ini = []")
    case True
    then show ?thesis by simp
  next
    case False
    with Cons show ?thesis by (simp add: str_join_Cons)
  qed
qed

lemma dotted: "str_join (lit ''.'') (map (\<lambda>c. [c]) ini) @ lit ''.''
    = (if ini = [] then lit ''.'' else concat (map (\<lambda>c. [c, Latin1 (CHR ''.'')]) ini))"
  using dotted_nonempty[of ini] by simp

lemma format_name_eq:
  "format_name name =
     (let token = hd (str_split name (lit '' ''));
          remaining = tl (str_split name (lit '' ''));
          initials = str_upper (if length token \<ge> 3 then take 1 token else token)
      in (if initials = [] then lit ''.'' else concat (map (\<lambda>c. [c, Latin1 (CHR ''.'')]) initials))
         @ lit '' '' @ str_join (lit '' '') remaining)"
proof -
  have t: "length t \<ge> 3 \<Longrightarrow> [t ! 0] = take 1 t" for t :: str
    by (cases t) simp_all
  show ?thesis
    unfolding format_name_def Let_def dotted
    by (simp add: t)
qed

lemma format_loop_nth:
  "i < length names \<Longrightarrow> format_loop names [] ! i = format_name (names ! i)"
  by (simp add: format_loop_map)

text \<open>
  C5, as amended. \<^verbatim>\<open>format_names\<close> cuts its input at every \<open>", "\<close>, formats the names one
  by one and joins the results by \<open>", "\<close>: the loop gives as many formatted names as there
  are names, the \<open>i\<close>-th being the format of the \<open>i\<close>-th name. A name is cut at every
  single space character, so a piece is empty where a space starts the name or follows
  another space, and no other whitespace cuts. The first piece gives the initials (only
  its first letter when the piece has three or more characters), upper-cased and with a
  period after every character (a lone period when the piece is empty), followed by a
  space and the remaining pieces joined by spaces as the surname. Upper-casing turns the
  letters a to z into A to Z. \<open>"AB Smith"\<close> gives \<open>"A.B. Smith"\<close>, \<open>"John Smith"\<close> gives
  \<open>"J. Smith"\<close>, and names in lower case get upper-case initials.
\<close>

theorem format_names_formats_each_name:
  "format_names name_string
     = str_join (lit '', '') (format_loop (str_split name_string (lit '', '')) [])
   \<and> length (format_loop names []) = length names
   \<and> (\<forall>i < length names. format_loop names [] ! i = format_name (names ! i))
   \<and> str_join (lit '', '') (str_split name_string (lit '', '')) = name_string
   \<and> format_name name =
       (let token = hd (str_split name (lit '' ''));
            remaining = tl (str_split name (lit '' ''));
            initials = str_upper (if length token \<ge> 3 then take 1 token else token)
        in (if initials = [] then lit ''.''
            else concat (map (\<lambda>c. [c, Latin1 (CHR ''.'')]) initials))
           @ lit '' '' @ str_join (lit '' '') remaining)
   \<and> str_upper (lit ''abcdefghijklmnopqrstuvwxyz'') = lit ''ABCDEFGHIJKLMNOPQRSTUVWXYZ''
   \<and> format_names (lit ''AB Smith'') = lit ''A.B. Smith''
   \<and> format_names (lit ''John Smith'') = lit ''J. Smith''
   \<and> format_names (lit ''john smith, ab jones, c doe'') = lit ''J. smith, A.B. jones, C. doe''"
proof -
  have a: "format_names name_string
     = str_join (lit '', '') (format_loop (str_split name_string (lit '', '')) [])"
    by (simp add: format_names_def)
  have b: "length (format_loop names []) = length names"
    by (simp add: format_loop_map)
  have c: "\<forall>i < length names. format_loop names [] ! i = format_name (names ! i)"
    by (simp add: format_loop_nth)
  have d: "str_join (lit '', '') (str_split name_string (lit '', '')) = name_string"
    by (rule join_split)
  have u: "str_upper (lit ''abcdefghijklmnopqrstuvwxyz'') = lit ''ABCDEFGHIJKLMNOPQRSTUVWXYZ''"
    by (simp add: case_eval)
  have e1: "format_names (lit ''AB Smith'') = lit ''A.B. Smith''"
    by (simp add: format_names_def format_name_def str_split_def case_eval)
  have e2: "format_names (lit ''John Smith'') = lit ''J. Smith''"
    by (simp add: format_names_def format_name_def str_split_def case_eval)
  have e3: "format_names (lit ''john smith, ab jones, c doe'') = lit ''J. smith, A.B. jones, C. doe''"
    by (simp add: format_names_def format_name_def str_split_def case_eval)
  from a b c d format_name_eq[of name] u e1 e2 e3 show ?thesis by (intro conjI)
qed

theorem format_names_formats_each_name_witness:
  "(1::nat) < length [lit ''AB Smith'', lit ''john doe'']
   \<and> format_loop [lit ''AB Smith'', lit ''john doe''] [] ! 1 = lit ''J. doe''"
proof -
  have h: "(1::nat) < length [lit ''AB Smith'', lit ''john doe'']" by simp
  note t = format_names_formats_each_name[of "[]" "[lit ''AB Smith'', lit ''john doe'']" "[]",
      THEN conjunct2, THEN conjunct2, THEN conjunct1, THEN spec, of 1, THEN mp, OF h]
  have "format_name (lit ''john doe'') = lit ''J. doe''"
    by (simp add: format_name_def str_split_def case_eval)
  with t have "format_loop [lit ''AB Smith'', lit ''john doe''] [] ! 1 = lit ''J. doe''" by simp
  with h show ?thesis by (intro conjI)
qed

text \<open>
  C5 as stated fails on a name that starts with a space and on a name whose tokens are
  separated by a tab: the source cuts at single spaces only, takes the empty first piece
  of \<open>" John Smith"\<close> and writes a lone period for it, and takes \<open>"John<tab>Smith"\<close> as one
  token, where the first whitespace-delimited token is \<open>"John"\<close> in both.
\<close>

theorem format_names_counterexample:
  "format_names (lit '' John Smith'') = lit ''. John Smith''
   \<and> spec_format_names (lit '' John Smith'') = lit ''J. Smith''
   \<and> lit ''. John Smith'' \<noteq> lit ''J. Smith''
   \<and> format_names (lit ''John'' @ [Latin1 (CHR 0x09)] @ lit ''Smith'') = lit ''J. ''
   \<and> spec_format_names (lit ''John'' @ [Latin1 (CHR 0x09)] @ lit ''Smith'') = lit ''J. Smith''
   \<and> lit ''J. '' \<noteq> lit ''J. Smith''"
proof -
  have a: "format_names (lit '' John Smith'') = lit ''. John Smith''"
    by (simp add: format_names_def format_name_def str_split_def case_eval)
  have b: "spec_format_names (lit '' John Smith'') = lit ''J. Smith''"
    by (simp add: spec_format_names_def spec_format_name_def str_split_def isspace_def case_eval)
  have c: "lit ''. John Smith'' \<noteq> lit ''J. Smith''" by simp
  have d: "format_names (lit ''John'' @ [Latin1 (CHR 0x09)] @ lit ''Smith'') = lit ''J. ''"
    by (simp add: format_names_def format_name_def str_split_def case_eval)
  have e: "spec_format_names (lit ''John'' @ [Latin1 (CHR 0x09)] @ lit ''Smith'') = lit ''J. Smith''"
    by (simp add: spec_format_names_def spec_format_name_def str_split_def isspace_def case_eval)
  have f: "lit ''J. '' \<noteq> lit ''J. Smith''" by simp
  from a b c d e f show ?thesis by (intro conjI)
qed

section \<open>The authors field of a scraped record\<close>

text \<open>
  C1. The claim: the stored authors field is \<open>format_names\<close> of the author string after
  \<open>unify_pseudonyms\<close>. The loop body calls \<open>unify_pseudonyms\<close> and drops its result, so
  the stored field is \<open>format_names\<close> of the string with the pseudonyms still in it. On
  a row whose author text is \<open>"C S Munoz, A Smith"\<close>, with the pseudonym \<open>"C S Munoz"\<close>
  and the accented name of the module's own example, the record keeps
  \<open>"C. S Munoz, A. Smith"\<close>, which is not the formatted unified string.
\<close>

theorem getGSdata_drops_unified_authors:
  "getGSdata
     [\<lparr>gs_title = lit ''T'', gs_reference = lit ''Physical Review A 1 (2), 3'', gs_year = 2020,
       gs_citations = 4, gs_paperlink = lit ''u'', gs_citeyears = [],
       gs_journal = lit ''Physical Review A'', gs_authors = lit ''C S Munoz, A Smith''\<rparr>]
     (lit (''C. S'' @ [CHR 0xE1] @ ''nchez Mu'' @ [CHR 0xF1] @ ''oz'')) [lit ''C S Munoz'']
   = Inr [\<lparr>title = lit ''T'', authors = lit ''C. S Munoz, A. Smith'',
            reference = lit ''Physical Review A 1 (2), 3'', journal = lit ''Physical Review A'',
            year = 2020, citations = 4, url = lit ''u'', citationsyears = [], isarxiv = False\<rparr>]
   \<and> format_names (unify_pseudonyms (str_title (lit ''C S Munoz, A Smith'')) [lit ''C S Munoz'']
        (lit (''C. S'' @ [CHR 0xE1] @ ''nchez Mu'' @ [CHR 0xF1] @ ''oz'')))
     = lit ''C... S'' @ [Latin1 (CHR 0xE1)] @ lit ''nchez Mu'' @ [Latin1 (CHR 0xF1)] @ lit ''oz, A. Smith''
   \<and> (lit ''C. S Munoz, A. Smith'') \<noteq> lit ''C... S'' @ [Latin1 (CHR 0xE1)] @ lit ''nchez Mu'' @ [Latin1 (CHR 0xF1)] @ lit ''oz, A. Smith''"
proof -
  have t1: "str_title (lit ''C S Munoz, A Smith'') = lit ''C S Munoz, A Smith''"
    by (simp add: case_eval)
  have t2: "str_title (lit ''Physical Review A'') = lit ''Physical Review A''"
    by (simp add: case_eval)
  have f: "format_names (lit ''C S Munoz, A Smith'') = lit ''C. S Munoz, A. Smith''"
    by (simp add: format_names_def format_name_def str_split_def case_eval)
  have l: "\<not> str_contains (lit ''arxiv'') (str_lower (lit ''Physical Review A''))"
    by (simp add: case_eval)
  have a: "getGSdata
     [\<lparr>gs_title = lit ''T'', gs_reference = lit ''Physical Review A 1 (2), 3'', gs_year = 2020,
       gs_citations = 4, gs_paperlink = lit ''u'', gs_citeyears = [],
       gs_journal = lit ''Physical Review A'', gs_authors = lit ''C S Munoz, A Smith''\<rparr>]
     (lit (''C. S'' @ [CHR 0xE1] @ ''nchez Mu'' @ [CHR 0xF1] @ ''oz'')) [lit ''C S Munoz'']
   = Inr [\<lparr>title = lit ''T'', authors = lit ''C. S Munoz, A. Smith'',
            reference = lit ''Physical Review A 1 (2), 3'', journal = lit ''Physical Review A'',
            year = 2020, citations = 4, url = lit ''u'', citationsyears = [], isarxiv = False\<rparr>]"
    using l[simplified] by (simp add: getGSdata_def paperInfo_def Let_def t1[simplified] t2[simplified] f[simplified])
  have u: "unify_pseudonyms (lit ''C S Munoz, A Smith'') [lit ''C S Munoz'']
        (lit (''C. S'' @ [CHR 0xE1] @ ''nchez Mu'' @ [CHR 0xF1] @ ''oz''))
      = lit ''C. S'' @ [Latin1 (CHR 0xE1)] @ lit ''nchez Mu'' @ [Latin1 (CHR 0xF1)] @ lit ''oz, A Smith''"
    by (simp add: str_replace_def)
  have b: "format_names (lit ''C. S'' @ [Latin1 (CHR 0xE1)] @ lit ''nchez Mu'' @ [Latin1 (CHR 0xF1)] @ lit ''oz, A Smith'')
     = lit ''C... S'' @ [Latin1 (CHR 0xE1)] @ lit ''nchez Mu'' @ [Latin1 (CHR 0xF1)] @ lit ''oz, A. Smith''"
    by (simp add: format_names_def format_name_def str_split_def case_eval)
  have c: "(lit ''C. S Munoz, A. Smith'') \<noteq> lit ''C... S'' @ [Latin1 (CHR 0xE1)] @ lit ''nchez Mu'' @ [Latin1 (CHR 0xF1)] @ lit ''oz, A. Smith''"
    by simp
  from a b c show ?thesis unfolding t1 u by (intro conjI)
qed

section \<open>Facts about the h-index loop\<close>

lemma h_loop_result:
  "h_loop i h xs = h \<or>
   (i + 1 \<le> h_loop i h xs \<and> h_loop i h xs \<le> i + length xs
    \<and> int (h_loop i h xs) \<le> xs ! (h_loop i h xs - i - 1))"
proof (induction xs arbitrary: i h)
  case Nil
  then show ?case by simp
next
  case (Cons c rest)
  show ?case
  proof (cases "c \<ge> int i + 1")
    case True
    let ?H = "h_loop (i + 1) (i + 1) rest"
    from Cons[of "i + 1" "i + 1"] consider "?H = i + 1"
      | "i + 2 \<le> ?H" "?H \<le> i + 1 + length rest" "int ?H \<le> rest ! (?H - (i + 1) - 1)"
      by auto
    then show ?thesis
    proof cases
      case 1
      with True show ?thesis by simp
    next
      case 2
      then have "(c # rest) ! (?H - i - 1) = rest ! (?H - (i + 1) - 1)"
        by (cases "?H - i - 1") auto
      with 2 True show ?thesis by simp
    qed
  next
    case False
    then show ?thesis by simp
  qed
qed

lemma h_loop_upper:
  "sorted_wrt (\<ge>) xs \<Longrightarrow> i + 1 \<le> r \<Longrightarrow> r \<le> i + length xs
   \<Longrightarrow> int r \<le> xs ! (r - i - 1) \<Longrightarrow> r \<le> h_loop i h xs"
proof (induction xs arbitrary: i h)
  case Nil
  then show ?case by simp
next
  case (Cons c rest)
  have le: "(c # rest) ! (r - i - 1) \<le> c"
  proof (cases "r - i - 1")
    case 0
    then show ?thesis by simp
  next
    case (Suc k)
    with Cons.prems(3) have "k < length rest" by simp
    with Cons.prems(1) Suc show ?thesis by simp
  qed
  with Cons.prems have c: "c \<ge> int i + 1" by linarith
  show ?case
  proof (cases "r = i + 1")
    case True
    from h_loop_result[of "i + 1" "i + 1" rest] have "i + 1 \<le> h_loop (i + 1) (i + 1) rest"
      by auto
    with c True show ?thesis by simp
  next
    case False
    with Cons.prems have r: "i + 1 + 1 \<le> r" "r \<le> i + 1 + length rest" by simp_all
    then have "(c # rest) ! (r - i - 1) = rest ! (r - (i + 1) - 1)"
      by (cases "r - i - 1") auto
    with Cons.prems have "int r \<le> rest ! (r - (i + 1) - 1)" by simp
    with Cons.IH[of "i + 1" "i + 1"] Cons.prems(1) r have "r \<le> h_loop (i + 1) (i + 1) rest"
      by simp
    with c show ?thesis by simp
  qed
qed

lemma sorted_citations_desc: "sorted_wrt (\<ge>) (sorted_citations counts)"
proof -
  have "sorted (sort counts)" by simp
  then show ?thesis unfolding sorted_citations_def sorted_wrt_rev .
qed

lemma h_index_Max:
  "h_index counts =
     Max (insert 0 {i. 1 \<le> i \<and> i \<le> length counts \<and> int i \<le> sorted_citations counts ! (i - 1)})"
proof -
  define ds where "ds = sorted_citations counts"
  define S where "S = {i. 1 \<le> i \<and> i \<le> length counts \<and> int i \<le> ds ! (i - 1)}"
  define H where "H = h_loop 0 0 ds"
  have len: "length ds = length counts" by (simp add: ds_def sorted_citations_def)
  have sub: "S \<subseteq> {..length counts}" by (auto simp: S_def)
  have fin: "finite (insert 0 S)" using sub finite_subset by blast
  have "H = 0 \<or> (0 + 1 \<le> H \<and> H \<le> 0 + length ds \<and> int H \<le> ds ! (H - 0 - 1))"
    unfolding H_def by (rule h_loop_result)
  then have mem: "H \<in> insert 0 S"
    unfolding S_def using len by auto
  have ub: "r \<le> H" if "r \<in> insert 0 S" for r
  proof (cases "r = 0")
    case True
    then show ?thesis by simp
  next
    case False
    with that have "r \<in> S" by simp
    then have a: "0 + 1 \<le> r" and b: "r \<le> 0 + length ds" and c: "int r \<le> ds ! (r - 0 - 1)"
      using len by (simp_all add: S_def)
    have d: "sorted_wrt (\<ge>) ds" unfolding ds_def by (rule sorted_citations_desc)
    show ?thesis unfolding H_def by (rule h_loop_upper[OF d a b c])
  qed
  have "Max (insert 0 S) = H" using fin ub mem by (rule Max_eqI)
  then show ?thesis by (simp add: h_index_def H_def S_def ds_def)
qed

text \<open>
  C2. The h-index of a list of citation counts is the largest rank \<open>i\<close>, counted from 1,
  whose count in the list sorted in descending order is at least \<open>i\<close>, and 0 when no rank
  qualifies. The sorted list is a descending rearrangement of the counts. The three
  examples of the specification hold.
\<close>

theorem h_index_largest_rank:
  "h_index counts =
     Max (insert 0 {i. 1 \<le> i \<and> i \<le> length counts \<and> int i \<le> sorted_citations counts ! (i - 1)})
   \<and> sorted_wrt (\<ge>) (sorted_citations counts)
   \<and> mset (sorted_citations counts) = mset counts
   \<and> h_index [10, 8, 5, 4, 3] = 4
   \<and> h_index [0, 0, 0] = 0
   \<and> h_index [] = 0"
proof -
  have m: "mset (sorted_citations counts) = mset counts"
    by (simp add: sorted_citations_def)
  have e1: "h_index [10, 8, 5, 4, 3] = 4" by (simp add: h_index_def sorted_citations_def)
  have e2: "h_index [0, 0, 0] = 0" by (simp add: h_index_def sorted_citations_def)
  have e3: "h_index [] = 0" by (simp add: h_index_def sorted_citations_def)
  from h_index_Max[of counts] sorted_citations_desc[of counts] m e1 e2 e3 show ?thesis
    by (intro conjI)
qed

section \<open>Facts about case mapping\<close>

lemma of_char_less_256: "(of_char c :: nat) < 256"
  by (metis of_char_mod_256 mod_less_divisor zero_less_numeral)

lemma lower_char_Latin1:
  "lower_char (Latin1 a) =
     (if isupper (Latin1 a) then Latin1 (char_of (of_char a + (32::nat))) else Latin1 a)"
  by (simp add: lower_char_def)

lemma isupper_Latin1:
  "isupper (Latin1 a) = ((65 \<le> (of_char a :: nat) \<and> (of_char a :: nat) \<le> 90)
     \<or> (192 \<le> (of_char a :: nat) \<and> (of_char a :: nat) \<le> 214)
     \<or> (216 \<le> (of_char a :: nat) \<and> (of_char a :: nat) \<le> 222))"
  by (simp add: isupper_def Let_def)

lemma lower_char_idem: "lower_char (lower_char c) = lower_char c"
proof (cases c)
  case (Latin1 a)
  define n where "n = (of_char a :: nat)"
  have n: "n < 256" unfolding n_def by (rule of_char_less_256)
  show ?thesis
  proof (cases "isupper (Latin1 a)")
    case True
    then have r: "(65 \<le> n \<and> n \<le> 90) \<or> (192 \<le> n \<and> n \<le> 214) \<or> (216 \<le> n \<and> n \<le> 222)"
      by (simp add: isupper_Latin1 n_def)
    then have m: "(of_char (char_of (n + 32) :: char) :: nat) = n + 32" by auto
    from r have "\<not> isupper (Latin1 (char_of (n + 32)))"
      unfolding isupper_Latin1 m by arith
    with True show ?thesis by (simp add: lower_char_Latin1 Latin1 n_def)
  next
    case False
    then show ?thesis by (simp add: lower_char_Latin1 Latin1)
  qed
next
  case U0178
  have "\<not> isupper (Latin1 (CHR 0xFF))" by (simp add: isupper_Latin1)
  then show ?thesis by (simp add: lower_char_def U0178)
next
  case U039C
  then show ?thesis by (simp add: lower_char_def)
next
  case U03BC
  then show ?thesis by (simp add: lower_char_def)
qed

lemma char_eq_code: "(a = b) = ((of_char a :: nat) = of_char b)"
  by simp

lemma arxiv_letters_Latin1:
  "Latin1 a \<in> arxiv_letters \<longleftrightarrow> (of_char a :: nat) \<in> {97, 114, 120, 105, 118}"
proof -
  have "Latin1 a \<in> arxiv_letters \<longleftrightarrow>
      a = CHR ''a'' \<or> a = CHR ''r'' \<or> a = CHR ''x'' \<or> a = CHR ''i'' \<or> a = CHR ''v''"
    by (simp add: arxiv_letters_def image_iff)
  also have "\<dots> \<longleftrightarrow> (of_char a :: nat) = of_char (CHR ''a'') \<or> (of_char a :: nat) = of_char (CHR ''r'')
      \<or> (of_char a :: nat) = of_char (CHR ''x'') \<or> (of_char a :: nat) = of_char (CHR ''i'')
      \<or> (of_char a :: nat) = of_char (CHR ''v'')"
    by (simp only: of_char_eq_iff)
  also have "\<dots> \<longleftrightarrow> (of_char a :: nat) \<in> {97, 114, 120, 105, 118}"
    by (simp del: of_char_eq_iff)
  finally show ?thesis .
qed

lemma title_char_block:
  "map lower_char (title_char c) = [lower_char c]
   \<or> (lower_char c \<notin> arxiv_letters \<and> title_char c \<noteq> []
       \<and> set (map lower_char (title_char c)) \<inter> arxiv_letters = {})"
proof (cases c)
  case (Latin1 a)
  define n where "n = (of_char a :: nat)"
  have n: "n < 256" unfolding n_def by (rule of_char_less_256)
  have a: "a = char_of n" by (simp add: n_def)
  have "(a = CHR 0xDF) = ((of_char a :: nat) = of_char (CHR 0xDF))"
    by (simp only: of_char_eq_iff)
  also have "(of_char (CHR 0xDF) :: nat) = 223" by simp
  finally have sp: "(Latin1 a = Latin1 (CHR 0xDF)) = (n = 223)" by (simp add: n_def)
  consider "n = 223" | "n = 181" | "n = 255"
    | "n \<noteq> 223" "n \<noteq> 181" "n \<noteq> 255"
      "(97 \<le> n \<and> n \<le> 122) \<or> (224 \<le> n \<and> n \<le> 246) \<or> (248 \<le> n \<and> n \<le> 254)"
    | "n \<noteq> 223" "n \<noteq> 181" "n \<noteq> 255"
      "\<not> ((97 \<le> n \<and> n \<le> 122) \<or> (224 \<le> n \<and> n \<le> 246) \<or> (248 \<le> n \<and> n \<le> 254))"
    by blast
  then show ?thesis
  proof cases
    case 1
    then have t: "title_char c = lit ''Ss''" using sp by (simp add: title_char_def Latin1)
    have l: "map lower_char (lit ''Ss'') = lit ''ss''"
      by (simp add: lower_char_Latin1 isupper_Latin1 char_of_eq_iff)
    have "\<not> isupper (Latin1 a)" using 1 by (simp add: isupper_Latin1 n_def)
    then have "lower_char c = Latin1 a" by (simp add: lower_char_Latin1 Latin1)
    moreover have "Latin1 a \<notin> arxiv_letters" using 1 by (simp add: arxiv_letters_Latin1 n_def)
    moreover have "set (lit ''ss'') \<inter> arxiv_letters = {}"
      by (simp add: arxiv_letters_Latin1)
    ultimately show ?thesis unfolding t l by simp
  next
    case 2
    then have t: "title_char c = [U039C]"
      using sp by (simp add: title_char_def upper_char_def Latin1 n_def)
    have "\<not> isupper (Latin1 a)" using 2 by (simp add: isupper_Latin1 n_def)
    then have "lower_char c = Latin1 a" by (simp add: lower_char_Latin1 Latin1)
    moreover have "Latin1 a \<notin> arxiv_letters" using 2 by (simp add: arxiv_letters_Latin1 n_def)
    moreover have "U03BC \<notin> arxiv_letters" by (auto simp: arxiv_letters_def)
    ultimately show ?thesis unfolding t by (simp add: lower_char_def)
  next
    case 3
    then have t: "title_char c = [U0178]"
      using sp by (simp add: title_char_def upper_char_def Latin1 n_def)
    have "\<not> isupper (Latin1 a)" using 3 by (simp add: isupper_Latin1 n_def)
    then have "lower_char c = Latin1 a" by (simp add: lower_char_Latin1 Latin1)
    moreover have "a = CHR 0xFF" using 3 a by (simp add: char_of_eq_iff)
    ultimately show ?thesis unfolding t by (simp add: lower_char_def)
  next
    case 4
    then have t: "title_char c = [Latin1 (char_of (n - 32))]"
      using sp by (simp add: title_char_def upper_char_def Latin1 n_def Let_def)
    from 4 n have m: "(of_char (char_of (n - 32) :: char) :: nat) = n - 32" by simp
    from 4 have up: "isupper (Latin1 (char_of (n - 32)))"
      unfolding isupper_Latin1 m by arith
    from 4 have nu: "\<not> isupper (Latin1 a)"
      unfolding isupper_Latin1 n_def[symmetric] by arith
    from 4 have "n - 32 + 32 = n" by arith
    with up nu m have "map lower_char (title_char c) = [lower_char c]"
      unfolding t by (simp add: lower_char_Latin1 Latin1 a)
    then show ?thesis by simp
  next
    case 5
    then have t: "title_char c = [c]"
      using sp by (auto simp: title_char_def upper_char_def Latin1 n_def Let_def)
    show ?thesis unfolding t by (simp add: lower_char_idem)
  qed
next
  case U0178
  have "\<not> isupper (Latin1 (CHR 0xFF))" by (simp add: isupper_Latin1)
  then show ?thesis by (simp add: U0178 title_char_def upper_char_def lower_char_def)
next
  case U039C
  then show ?thesis by (simp add: title_char_def upper_char_def lower_char_def)
next
  case U03BC
  then show ?thesis by (simp add: title_char_def upper_char_def lower_char_def)
qed

lemma not_prefix_block:
  "set b \<inter> S = {} \<Longrightarrow> b \<noteq> [] \<Longrightarrow> x \<noteq> [] \<Longrightarrow> set x \<subseteq> S \<Longrightarrow> \<not> prefix x (b @ r)"
  by (cases x; cases b) auto

lemma sublist_skip_block:
  "set b \<inter> S = {} \<Longrightarrow> x \<noteq> [] \<Longrightarrow> set x \<subseteq> S \<Longrightarrow> sublist x (b @ r) \<longleftrightarrow> sublist x r"
proof (induction b)
  case Nil
  then show ?case by simp
next
  case (Cons d ds)
  then have "\<not> prefix x ((d # ds) @ r)" by (intro not_prefix_block[of _ S]) auto
  moreover from Cons have "sublist x (ds @ r) \<longleftrightarrow> sublist x r" by auto
  ultimately show ?case by (simp add: sublist_Cons_right)
qed

lemma title_step_block:
  "map lower_char (if b then [lower_char c] else title_char c) = [lower_char c]
   \<or> (lower_char c \<notin> arxiv_letters \<and> (if b then [lower_char c] else title_char c) \<noteq> []
       \<and> set (map lower_char (if b then [lower_char c] else title_char c)) \<inter> arxiv_letters = {})"
  using title_char_block[of c] by (cases b) (simp_all add: lower_char_idem)

lemma lower_title_prefix:
  "set x \<subseteq> arxiv_letters \<Longrightarrow>
     prefix x (str_lower (title_from b t)) \<longleftrightarrow> prefix x (str_lower t)"
proof (induction t arbitrary: b x)
  case Nil
  then show ?case by (simp add: str_lower_def)
next
  case (Cons c cs)
  define blk where "blk = (if b then [lower_char c] else title_char c)"
  define L where "L = str_lower (title_from (islower c \<or> isupper c) cs)"
  define R where "R = str_lower cs"
  have l: "str_lower (title_from b (c # cs)) = map lower_char blk @ L"
    by (simp add: str_lower_def blk_def L_def)
  have r: "str_lower (c # cs) = lower_char c # R" by (simp add: str_lower_def R_def)
  show ?case
  proof (cases x)
    case Nil
    then show ?thesis by simp
  next
    case x: (Cons y ys)
    with Cons.prems have y: "y \<in> arxiv_letters" and ys: "set ys \<subseteq> arxiv_letters" by auto
    from title_step_block[of b c] consider "map lower_char blk = [lower_char c]"
      | "lower_char c \<notin> arxiv_letters" "blk \<noteq> []" "set (map lower_char blk) \<inter> arxiv_letters = {}"
      unfolding blk_def by blast
    then show ?thesis
    proof cases
      case 1
      have "prefix ys L \<longleftrightarrow> prefix ys R" unfolding L_def R_def by (rule Cons.IH[OF ys])
      then show ?thesis unfolding l r 1 x by simp
    next
      case 2
      have "\<not> prefix x (map lower_char blk @ L)"
        by (rule not_prefix_block[of _ arxiv_letters]) (use 2 x Cons.prems in auto)
      moreover have "\<not> prefix x (lower_char c # R)" using 2(1) y x by auto
      ultimately show ?thesis unfolding l r by simp
    qed
  qed
qed

lemma lower_title_sublist:
  "x \<noteq> [] \<Longrightarrow> set x \<subseteq> arxiv_letters \<Longrightarrow>
     sublist x (str_lower (title_from b t)) \<longleftrightarrow> sublist x (str_lower t)"
proof (induction t arbitrary: b)
  case Nil
  then show ?case by (simp add: str_lower_def)
next
  case (Cons c cs)
  define blk where "blk = (if b then [lower_char c] else title_char c)"
  define L where "L = str_lower (title_from (islower c \<or> isupper c) cs)"
  define R where "R = str_lower cs"
  have l: "str_lower (title_from b (c # cs)) = map lower_char blk @ L"
    by (simp add: str_lower_def blk_def L_def)
  have r: "str_lower (c # cs) = lower_char c # R" by (simp add: str_lower_def R_def)
  have ih: "sublist x L \<longleftrightarrow> sublist x R"
    unfolding L_def R_def by (rule Cons.IH[OF Cons.prems])
  have p: "prefix x (map lower_char blk @ L) \<longleftrightarrow> prefix x (lower_char c # R)"
    using lower_title_prefix[OF Cons.prems(2), of b "c # cs"] unfolding l r .
  from title_step_block[of b c] consider "map lower_char blk = [lower_char c]"
    | "lower_char c \<notin> arxiv_letters" "blk \<noteq> []" "set (map lower_char blk) \<inter> arxiv_letters = {}"
    unfolding blk_def by blast
  then show ?case
  proof cases
    case 1
    from p ih show ?thesis unfolding l r 1 by (simp add: sublist_Cons_right)
  next
    case 2
    have "sublist x (map lower_char blk @ L) \<longleftrightarrow> sublist x L"
      by (rule sublist_skip_block[of _ arxiv_letters]) (use 2 Cons.prems in auto)
    moreover have "sublist x ([lower_char c] @ R) \<longleftrightarrow> sublist x R"
      by (rule sublist_skip_block[of _ arxiv_letters]) (use 2 Cons.prems in auto)
    ultimately show ?thesis unfolding l r using ih by simp
  qed
qed

lemma arxiv_title [simplified]:
  "str_contains (lit ''arxiv'') (str_lower (str_title v))
     = str_contains (lit ''arxiv'') (str_lower v)"
proof -
  have "lit ''arxiv'' \<noteq> []" by simp
  moreover have "set (lit ''arxiv'') \<subseteq> arxiv_letters" by (simp add: arxiv_letters_def)
  ultimately show ?thesis
    unfolding str_contains_iff str_title_def by (rule lower_title_sublist)
qed

lemma contains_map_iff:
  "str_contains x (map f v) \<longleftrightarrow> (\<exists>ps w ss. v = ps @ w @ ss \<and> map f w = x)"
proof
  assume "str_contains x (map f v)"
  then obtain ps' ss' where e: "map f v = ps' @ x @ ss'"
    by (auto simp: str_contains_iff sublist_def)
  define ps where "ps = take (length ps') v"
  define w where "w = take (length x) (drop (length ps') v)"
  define ss where "ss = drop (length x) (drop (length ps') v)"
  have "v = ps @ w @ ss" by (simp add: ps_def w_def ss_def del: drop_drop)
  moreover have "map f w = take (length x) (drop (length ps') (map f v))"
    by (simp add: w_def take_map drop_map)
  then have "map f w = x" by (simp add: e)
  ultimately show "\<exists>ps w ss. v = ps @ w @ ss \<and> map f w = x" by blast
next
  assume "\<exists>ps w ss. v = ps @ w @ ss \<and> map f w = x"
  then obtain ps w ss where "v = ps @ w @ ss" and "map f w = x" by blast
  then have "map f v = map f ps @ x @ map f ss" by simp
  then show "str_contains x (map f v)"
    unfolding str_contains_iff sublist_def by blast
qed

section \<open>Facts about the pieces of a split\<close>

lemma not_sublist_butlast: "sep \<noteq> [] \<Longrightarrow> \<not> sublist sep (butlast sep)"
  using sublist_length_le[of sep "butlast sep"] by (cases sep) auto

lemma split_from_absent:
  "\<not> sublist sep s \<Longrightarrow> split_from sep cur s = [cur @ s]"
proof (induction s arbitrary: cur)
  case Nil
  then show ?case by simp
next
  case (Cons c cs)
  then have "\<not> prefix sep (c # cs)" and "\<not> sublist sep cs"
    by (simp_all add: sublist_Cons_right)
  with Cons.IH[of "cur @ [c]"] show ?case by simp
qed

lemma split_from_first:
  assumes "sep \<noteq> []" and "sublist sep s"
  shows "\<exists>pre rest. s = pre @ sep @ rest \<and> \<not> sublist sep (pre @ butlast sep)
           \<and> split_from sep cur s = (cur @ pre) # split_from sep [] rest"
  using assms(2)
proof (induction s arbitrary: cur)
  case Nil
  with assms(1) show ?case by simp
next
  case (Cons c cs)
  show ?case
  proof (cases "prefix sep (c # cs)")
    case True
    then have "c # cs = [] @ sep @ drop (length sep) (c # cs)"
      by (metis append_Nil append_eq_conv_conj prefix_def)
    moreover have "\<not> sublist sep ([] @ butlast sep)"
      using assms(1) by (simp add: not_sublist_butlast)
    moreover have "split_from sep cur (c # cs) = (cur @ []) # split_from sep [] (drop (length sep) (c # cs))"
      using True assms(1) by simp
    ultimately show ?thesis by blast
  next
    case False
    with Cons.prems have "sublist sep cs" by (simp add: sublist_Cons_right)
    from Cons.IH[OF this, of "cur @ [c]"] obtain pre rest where
      e: "cs = pre @ sep @ rest" and n: "\<not> sublist sep (pre @ butlast sep)"
      and sp: "split_from sep (cur @ [c]) cs = ((cur @ [c]) @ pre) # split_from sep [] rest"
      by blast
    have "\<not> prefix sep ((c # pre) @ butlast sep)"
    proof
      assume "prefix sep ((c # pre) @ butlast sep)"
      then have "prefix sep (((c # pre) @ butlast sep) @ [last sep] @ rest)"
        by (rule prefix_prefix)
      moreover have "((c # pre) @ butlast sep) @ [last sep] @ rest = c # cs"
        using e assms(1) by simp
      ultimately show False using False by simp
    qed
    with n have "\<not> sublist sep ((c # pre) @ butlast sep)"
      by (simp add: sublist_Cons_right)
    moreover have "c # cs = (c # pre) @ sep @ rest" using e by simp
    moreover have "split_from sep cur (c # cs) = (cur @ (c # pre)) # split_from sep [] rest"
      using False sp by simp
    ultimately show ?thesis by blast
  qed
qed

lemma split_length_ge2:
  assumes "sep \<noteq> []"
  shows "2 \<le> length (str_split s sep) \<longleftrightarrow> str_contains sep s"
proof (cases "sublist sep s")
  case True
  from split_from_first[OF assms True, of "[]"] obtain pre rest where
    "split_from sep [] s = ([] @ pre) # split_from sep [] rest" by blast
  moreover have "split_from sep [] rest \<noteq> []" by (rule split_from_ne)
  ultimately have "2 \<le> length (split_from sep [] s)"
    by (cases "split_from sep [] rest") simp_all
  with True show ?thesis by (simp add: str_split_def str_contains_iff)
next
  case False
  then show ?thesis by (simp add: str_split_def str_contains_iff split_from_absent)
qed

lemma split_second_piece:
  assumes "sep \<noteq> []" and "str_contains sep s"
  shows "\<exists>pre mid post. s = pre @ sep @ mid @ post
           \<and> \<not> str_contains sep (pre @ butlast sep)
           \<and> str_split s sep ! 0 = pre \<and> str_split s sep ! 1 = mid
           \<and> (post = [] \<and> \<not> str_contains sep mid
                \<or> prefix sep post \<and> \<not> str_contains sep (mid @ butlast sep))"
proof -
  from assms have "sublist sep s" by (simp add: str_contains_iff)
  from split_from_first[OF assms(1) this, of "[]"] obtain pre rest where
    e: "s = pre @ sep @ rest" and n: "\<not> sublist sep (pre @ butlast sep)"
    and sp: "split_from sep [] s = pre # split_from sep [] rest" by auto
  show ?thesis
  proof (cases "sublist sep rest")
    case True
    from split_from_first[OF assms(1) True, of "[]"] obtain mid rest' where
      e': "rest = mid @ sep @ rest'" and n': "\<not> sublist sep (mid @ butlast sep)"
      and sp': "split_from sep [] rest = mid # split_from sep [] rest'" by auto
    have "s = pre @ sep @ mid @ (sep @ rest')" using e e' by simp
    moreover have "str_split s sep ! 0 = pre" "str_split s sep ! 1 = mid"
      using sp sp' by (simp_all add: str_split_def)
    moreover have "prefix sep (sep @ rest')" by simp
    ultimately show ?thesis using n n' unfolding str_contains_iff by blast
  next
    case False
    then have sp': "split_from sep [] rest = [rest]" by (simp add: split_from_absent)
    have "s = pre @ sep @ rest @ []" using e by simp
    moreover have "str_split s sep ! 0 = pre" "str_split s sep ! 1 = rest"
      using sp sp' by (simp_all add: str_split_def)
    ultimately show ?thesis using n False unfolding str_contains_iff by blast
  qed
qed

lemma split_tail_after:
  "sep \<noteq> [] \<Longrightarrow> sublist sep s \<Longrightarrow>
     tl (split_from sep cur s) = split_from sep [] (spec_substring_after sep s)"
proof (induction s arbitrary: cur)
  case Nil
  then show ?case by simp
next
  case (Cons c cs)
  show ?case
  proof (cases "prefix sep (c # cs)")
    case True
    with Cons.prems show ?thesis by simp
  next
    case False
    with Cons.prems have "sublist sep cs" by (simp add: sublist_Cons_right)
    with Cons.IH[of "cur @ [c]"] Cons.prems(1) False show ?thesis by simp
  qed
qed

lemma split_second_single:
  assumes "sep \<noteq> []" and "str_contains sep s"
    and "\<not> str_contains sep (spec_substring_after sep s)"
  shows "str_split s sep ! 1 = spec_substring_after sep s"
proof -
  from assms have s: "sublist sep s" and n: "\<not> sublist sep (spec_substring_after sep s)"
    by (simp_all add: str_contains_iff)
  have "split_from sep [] s \<noteq> []" by (rule split_from_ne)
  then have "split_from sep [] s ! 1 = tl (split_from sep [] s) ! 0"
    by (cases "split_from sep [] s") simp_all
  also have "\<dots> = [[] @ spec_substring_after sep s] ! 0"
    using split_tail_after[OF assms(1) s, of "[]"] split_from_absent[OF n, of "[]"] by simp
  finally show ?thesis by (simp add: str_split_def)
qed

section \<open>Facts about \<open>paperInfo\<close>\<close>

lemma index_split_1 [simplified]:
  "index (str_split r (lit ''arXiv:'')) 1 =
     (if str_contains (lit ''arXiv:'') r then Inr (str_split r (lit ''arXiv:'') ! 1) else Inl IndexError)"
proof -
  have "2 \<le> length (str_split r (lit ''arXiv:'')) \<longleftrightarrow> str_contains (lit ''arXiv:'') r"
    by (rule split_length_ge2) simp
  then show ?thesis unfolding index_def by (cases "str_contains (lit ''arXiv:'') r") auto
qed

lemma paperInfo_peer:
  "\<not> str_contains (lit ''arxiv'') (str_lower (gs_journal row)) \<Longrightarrow>
   paperInfo name pseudonyms row =
     Inr \<lparr>title = gs_title row, authors = format_names (str_title (gs_authors row)),
          reference = gs_reference row, journal = str_title (gs_journal row),
          year = gs_year row, citations = gs_citations row,
          url = gs_paperlink row, citationsyears = gs_citeyears row, isarxiv = False\<rparr>"
  by (simp add: paperInfo_def Let_def arxiv_title)

lemma paperInfo_preprint:
  "str_contains (lit ''arxiv'') (str_lower (gs_journal row)) \<Longrightarrow>
   str_contains (lit ''arXiv:'') (gs_reference row) \<Longrightarrow>
   paperInfo name pseudonyms row =
     Inr \<lparr>title = gs_title row, authors = format_names (str_title (gs_authors row)),
          reference = lit ''arXiv: '' @ str_split (gs_reference row) (lit ''arXiv:'') ! 1,
          journal = lit ''arXiv'',
          year = gs_year row, citations = gs_citations row,
          url = gs_paperlink row, citationsyears = gs_citeyears row, isarxiv = True\<rparr>"
  by (simp add: paperInfo_def Let_def arxiv_title index_split_1[unfolded One_nat_def])

lemma paperInfo_raises:
  "str_contains (lit ''arxiv'') (str_lower (gs_journal row)) \<Longrightarrow>
   \<not> str_contains (lit ''arXiv:'') (gs_reference row) \<Longrightarrow>
   paperInfo name pseudonyms row = Inl IndexError"
  by (simp add: paperInfo_def Let_def arxiv_title index_split_1[unfolded One_nat_def])

lemma paperInfo_error: "paperInfo name pseudonyms row = Inl e \<Longrightarrow> e = IndexError"
  by (cases "str_contains (lit ''arxiv'') (str_lower (gs_journal row))";
      cases "str_contains (lit ''arXiv:'') (gs_reference row)")
     (simp_all add: paperInfo_peer paperInfo_preprint paperInfo_raises)

lemma getGSdata_loop_raises:
  "row \<in> set rows \<Longrightarrow> paperInfo name pseudonyms row = Inl IndexError \<Longrightarrow>
   getGSdata_loop name pseudonyms rows infoList = Inl IndexError"
proof (induction rows arbitrary: infoList)
  case Nil
  then show ?case by simp
next
  case (Cons r rows)
  show ?case
  proof (cases "paperInfo name pseudonyms r")
    case (Inl e)
    then have "e = IndexError" by (rule paperInfo_error)
    with Inl show ?thesis by simp
  next
    case (Inr p)
    with Cons.prems have "row \<in> set rows" by auto
    with Cons.IH Cons.prems(2) Inr show ?thesis by simp
  qed
qed

lemma paperInfo_Inr_cases:
  assumes "paperInfo name pseudonyms row = Inr p"
  shows "\<not> str_contains (lit ''arxiv'') (str_lower (gs_journal row))
           \<and> \<not> isarxiv p \<and> journal p = str_title (gs_journal row)
           \<and> reference p = gs_reference row
         \<or> str_contains (lit ''arxiv'') (str_lower (gs_journal row))
           \<and> str_contains (lit ''arXiv:'') (gs_reference row)
           \<and> isarxiv p \<and> journal p = lit ''arXiv''
           \<and> reference p = lit ''arXiv: '' @ str_split (gs_reference row) (lit ''arXiv:'') ! 1"
proof (cases "str_contains (lit ''arxiv'') (str_lower (gs_journal row))")
  case False
  with assms show ?thesis by (auto simp: paperInfo_peer)
next
  case True
  show ?thesis
  proof (cases "str_contains (lit ''arXiv:'') (gs_reference row)")
    case False
    with True assms show ?thesis by (simp add: paperInfo_raises)
  next
    case r: True
    with True assms show ?thesis by (auto simp: paperInfo_preprint)
  qed
qed

lemma arxiv_lower [simplified]: "str_contains (lit ''arxiv'') (str_lower (lit ''arXiv''))"
proof -
  have "str_lower (lit ''arXiv'') = lit ''arxiv''"
    by (simp add: case_eval)
  then show ?thesis by simp
qed

section \<open>Classification of preprints\<close>

text \<open>
  C4, as amended. For every record \<open>p\<close> the loop body builds from a row, \<open>isarxiv p\<close>
  holds exactly when some stretch of the venue text reads \<open>"arxiv"\<close> once lower-cased.
  When it holds, the journal is the literal \<open>"arXiv"\<close> and the reference is \<open>"arXiv: "\<close>
  followed by the part of the original reference between its first \<open>"arXiv:"\<close> and the
  next \<open>"arXiv:"\<close>, or the end of the reference when there is no next one; when
  \<open>"arXiv:"\<close> does not occur again, this is everything after the first \<open>"arXiv:"\<close>.
  Otherwise the journal is the title-cased venue text and the reference is unchanged.
\<close>

theorem paperInfo_classifies_preprints:
  assumes "paperInfo name pseudonyms row = Inr p"
  shows "isarxiv p = (\<exists>ps w ss. gs_journal row = ps @ w @ ss \<and> str_lower w = lit ''arxiv'')
    \<and> (isarxiv p \<longrightarrow>
         journal p = lit ''arXiv''
         \<and> (\<exists>pre mid post. gs_reference row = pre @ lit ''arXiv:'' @ mid @ post
               \<and> \<not> str_contains (lit ''arXiv:'') (pre @ lit ''arXiv'')
               \<and> reference p = lit ''arXiv: '' @ mid
               \<and> (post = [] \<and> \<not> str_contains (lit ''arXiv:'') mid
                    \<or> prefix (lit ''arXiv:'') post \<and> \<not> str_contains (lit ''arXiv:'') (mid @ lit ''arXiv'')))
         \<and> (\<not> str_contains (lit ''arXiv:'') (spec_substring_after (lit ''arXiv:'') (gs_reference row)) \<longrightarrow>
               reference p = lit ''arXiv: '' @ spec_substring_after (lit ''arXiv:'') (gs_reference row)))
    \<and> (\<not> isarxiv p \<longrightarrow>
         journal p = str_title (gs_journal row) \<and> reference p = gs_reference row)"
proof -
  let ?v = "str_contains (lit ''arxiv'') (str_lower (gs_journal row))"
  let ?r = "str_contains (lit ''arXiv:'') (gs_reference row)"
  have ci: "?v = (\<exists>ps w ss. gs_journal row = ps @ w @ ss \<and> str_lower w = lit ''arxiv'')"
    unfolding str_lower_def by (rule contains_map_iff)
  show ?thesis
  proof (cases ?v)
    case False
    with assms have "p = \<lparr>title = gs_title row, authors = format_names (str_title (gs_authors row)),
          reference = gs_reference row, journal = str_title (gs_journal row),
          year = gs_year row, citations = gs_citations row,
          url = gs_paperlink row, citationsyears = gs_citeyears row, isarxiv = False\<rparr>"
      by (simp add: paperInfo_peer)
    then have "\<not> isarxiv p" "journal p = str_title (gs_journal row)" "reference p = gs_reference row"
      by simp_all
    with False ci show ?thesis by simp
  next
    case True
    have r: ?r
    proof (rule ccontr)
      assume "\<not> ?r"
      with True have "paperInfo name pseudonyms row = Inl IndexError" by (rule paperInfo_raises)
      with assms show False by simp
    qed
    with True assms have "p = \<lparr>title = gs_title row, authors = format_names (str_title (gs_authors row)),
          reference = lit ''arXiv: '' @ str_split (gs_reference row) (lit ''arXiv:'') ! 1,
          journal = lit ''arXiv'',
          year = gs_year row, citations = gs_citations row,
          url = gs_paperlink row, citationsyears = gs_citeyears row, isarxiv = True\<rparr>"
      by (simp add: paperInfo_preprint)
    then have p: "isarxiv p" "journal p = lit ''arXiv''"
      "reference p = lit ''arXiv: '' @ str_split (gs_reference row) (lit ''arXiv:'') ! 1"
      by simp_all
    have ne: "(lit ''arXiv:'') \<noteq> []" by simp
    from split_second_piece[OF ne r] obtain pre mid post where
      d: "gs_reference row = pre @ lit ''arXiv:'' @ mid @ post"
        "\<not> str_contains (lit ''arXiv:'') (pre @ butlast (lit ''arXiv:''))"
        "str_split (gs_reference row) (lit ''arXiv:'') ! 1 = mid"
        "post = [] \<and> \<not> str_contains (lit ''arXiv:'') mid
           \<or> prefix (lit ''arXiv:'') post \<and> \<not> str_contains (lit ''arXiv:'') (mid @ butlast (lit ''arXiv:''))"
      by blast
    have b: "butlast (lit ''arXiv:'') = lit ''arXiv''" by simp
    have e: "\<exists>pre mid post. gs_reference row = pre @ lit ''arXiv:'' @ mid @ post
               \<and> \<not> str_contains (lit ''arXiv:'') (pre @ lit ''arXiv'')
               \<and> reference p = lit ''arXiv: '' @ mid
               \<and> (post = [] \<and> \<not> str_contains (lit ''arXiv:'') mid
                    \<or> prefix (lit ''arXiv:'') post \<and> \<not> str_contains (lit ''arXiv:'') (mid @ lit ''arXiv''))"
      using d p(3) unfolding b by blast
    have s: "\<not> str_contains (lit ''arXiv:'') (spec_substring_after (lit ''arXiv:'') (gs_reference row)) \<longrightarrow>
               reference p = lit ''arXiv: '' @ spec_substring_after (lit ''arXiv:'') (gs_reference row)"
      using split_second_single[OF ne r] p(3) by simp
    from True ci p(1,2) e s show ?thesis by simp
  qed
qed

theorem paperInfo_classifies_preprints_witness:
  "paperInfo (lit ''A. Name'') []
     \<lparr>gs_title = lit ''T'', gs_reference = lit ''arXiv preprint arXiv:2101.00001, 2021'', gs_year = 2021,
      gs_citations = 0, gs_paperlink = lit ''u'', gs_citeyears = [],
      gs_journal = lit ''arXiv preprint arXiv:2101.00001'', gs_authors = lit ''A Name, B Other''\<rparr>
   = Inr \<lparr>title = lit ''T'', authors = lit ''A. Name, B. Other'',
          reference = lit ''arXiv: 2101.00001, 2021'', journal = lit ''arXiv'', year = 2021,
          citations = 0, url = lit ''u'', citationsyears = [], isarxiv = True\<rparr>
   \<and> (\<exists>ps w ss. (lit ''arXiv preprint arXiv:2101.00001'') = ps @ w @ ss \<and> str_lower w = lit ''arxiv'')
   \<and> \<not> str_contains (lit ''arXiv:'') (spec_substring_after (lit ''arXiv:'') (lit ''arXiv preprint arXiv:2101.00001, 2021''))"
proof -
  let ?row = "\<lparr>gs_title = lit ''T'', gs_reference = lit ''arXiv preprint arXiv:2101.00001, 2021'', gs_year = 2021,
      gs_citations = 0, gs_paperlink = lit ''u'', gs_citeyears = [],
      gs_journal = lit ''arXiv preprint arXiv:2101.00001'', gs_authors = lit ''A Name, B Other''\<rparr>"
  let ?p = "\<lparr>title = lit ''T'', authors = lit ''A. Name, B. Other'',
          reference = lit ''arXiv: 2101.00001, 2021'', journal = lit ''arXiv'', year = 2021,
          citations = 0, url = lit ''u'', citationsyears = [], isarxiv = True\<rparr>"
  have l: "str_lower (lit ''arXiv preprint arXiv:2101.00001'') = lit ''arxiv preprint arxiv:2101.00001''"
    by (simp add: case_eval)
  have v: "str_contains (lit ''arxiv'') (str_lower (gs_journal ?row))"
    by (simp add: l[simplified])
  have r: "str_contains (lit ''arXiv:'') (gs_reference ?row)" by simp
  have t: "str_title (lit ''A Name, B Other'') = lit ''A Name, B Other''"
    by (simp add: case_eval)
  have f: "format_names (lit ''A Name, B Other'') = lit ''A. Name, B. Other''"
    by (simp add: format_names_def format_name_def str_split_def case_eval)
  have s: "str_split (lit ''arXiv preprint arXiv:2101.00001, 2021'') (lit ''arXiv:'') ! 1 = lit ''2101.00001, 2021''"
    by (simp add: str_split_def)
  have h: "paperInfo (lit ''A. Name'') [] ?row = Inr ?p"
    using paperInfo_preprint[OF v r, of "(lit ''A. Name'')" "[]"] by (simp add: t[simplified] f[simplified] s[simplified])
  have n: "\<not> str_contains (lit ''arXiv:'') (spec_substring_after (lit ''arXiv:'') (lit ''arXiv preprint arXiv:2101.00001, 2021''))"
    by simp
  from paperInfo_classifies_preprints[OF h]
  have "isarxiv ?p = (\<exists>ps w ss. gs_journal ?row = ps @ w @ ss \<and> str_lower w = lit ''arxiv'')"
    by (elim conjE)
  then have "\<exists>ps w ss. (lit ''arXiv preprint arXiv:2101.00001'') = ps @ w @ ss \<and> str_lower w = lit ''arxiv''"
    by simp
  with h n show ?thesis by (intro conjI)
qed

text \<open>
  C4 as stated fails on a reference in which \<open>"arXiv:"\<close> occurs twice: the record keeps
  only the text up to the second occurrence, not everything after the first.
\<close>

theorem paperInfo_reference_counterexample:
  "paperInfo (lit ''A. Name'') []
     \<lparr>gs_title = lit ''T'', gs_reference = lit ''arXiv:2101.00001, see also arXiv:2101.00002'',
      gs_year = 2021, gs_citations = 0, gs_paperlink = lit ''u'', gs_citeyears = [],
      gs_journal = lit ''arXiv preprint arXiv:2101.00001'', gs_authors = lit ''A Name, B Other''\<rparr>
   = Inr \<lparr>title = lit ''T'', authors = lit ''A. Name, B. Other'',
          reference = lit ''arXiv: 2101.00001, see also '', journal = lit ''arXiv'', year = 2021,
          citations = 0, url = lit ''u'', citationsyears = [], isarxiv = True\<rparr>
   \<and> (lit ''arXiv: '') @ spec_substring_after (lit ''arXiv:'') (lit ''arXiv:2101.00001, see also arXiv:2101.00002'')
       = lit ''arXiv: 2101.00001, see also arXiv:2101.00002''
   \<and> (lit ''arXiv: 2101.00001, see also '') \<noteq> lit ''arXiv: 2101.00001, see also arXiv:2101.00002''"
proof -
  let ?row = "\<lparr>gs_title = lit ''T'', gs_reference = lit ''arXiv:2101.00001, see also arXiv:2101.00002'',
      gs_year = 2021, gs_citations = 0, gs_paperlink = lit ''u'', gs_citeyears = [],
      gs_journal = lit ''arXiv preprint arXiv:2101.00001'', gs_authors = lit ''A Name, B Other''\<rparr>"
  have l: "str_lower (lit ''arXiv preprint arXiv:2101.00001'') = lit ''arxiv preprint arxiv:2101.00001''"
    by (simp add: case_eval)
  have v: "str_contains (lit ''arxiv'') (str_lower (gs_journal ?row))"
    by (simp add: l[simplified])
  have r: "str_contains (lit ''arXiv:'') (gs_reference ?row)" by simp
  have t: "str_title (lit ''A Name, B Other'') = lit ''A Name, B Other''"
    by (simp add: case_eval)
  have f: "format_names (lit ''A Name, B Other'') = lit ''A. Name, B. Other''"
    by (simp add: format_names_def format_name_def str_split_def case_eval)
  have s: "str_split (lit ''arXiv:2101.00001, see also arXiv:2101.00002'') (lit ''arXiv:'') ! 1
             = lit ''2101.00001, see also ''"
    by (simp add: str_split_def)
  have h: "paperInfo (lit ''A. Name'') [] ?row
     = Inr \<lparr>title = lit ''T'', authors = lit ''A. Name, B. Other'',
          reference = lit ''arXiv: 2101.00001, see also '', journal = lit ''arXiv'', year = 2021,
          citations = 0, url = lit ''u'', citationsyears = [], isarxiv = True\<rparr>"
    using paperInfo_preprint[OF v r, of "(lit ''A. Name'')" "[]"] by (simp add: t[simplified] f[simplified] s[simplified])
  have a: "(lit ''arXiv: '') @ spec_substring_after (lit ''arXiv:'') (lit ''arXiv:2101.00001, see also arXiv:2101.00002'')
       = lit ''arXiv: 2101.00001, see also arXiv:2101.00002''" by simp
  have n: "(lit ''arXiv: 2101.00001, see also '') \<noteq> lit ''arXiv: 2101.00001, see also arXiv:2101.00002''"
    by simp
  from h a n show ?thesis by (intro conjI)
qed

lemma venue_arxiv_iff:
  "str_contains (lit ''arxiv'') (str_lower v) = (\<exists>ps w ss. v = ps @ w @ ss \<and> str_lower w = lit ''arxiv'')"
  unfolding str_lower_def by (rule contains_map_iff)

text \<open>
  C9. For every record the loop body builds, the classification test run again on the
  record's journal field, rewritten or not, gives the record's \<open>isarxiv\<close> flag; and
  running the whole loop body again on the record's journal and reference gives a record
  with the same flag. The literal \<open>"arXiv"\<close> is classified as a preprint.
\<close>

theorem classification_idempotent:
  assumes "paperInfo name pseudonyms row = Inr p"
  shows "str_contains (lit ''arxiv'') (str_lower (journal p)) = isarxiv p
    \<and> (\<exists>p'. paperInfo name pseudonyms
               (row\<lparr>gs_journal := journal p, gs_reference := reference p\<rparr>) = Inr p'
             \<and> isarxiv p' = isarxiv p)
    \<and> str_contains (lit ''arxiv'') (str_lower (lit ''arXiv''))"
proof -
  let ?row' = "row\<lparr>gs_journal := journal p, gs_reference := reference p\<rparr>"
  note c = paperInfo_Inr_cases[OF assms]
  have a: "str_contains (lit ''arxiv'') (str_lower (journal p)) = isarxiv p"
    using c arxiv_lower by (auto simp: arxiv_title)
  have b: "\<exists>p'. paperInfo name pseudonyms ?row' = Inr p' \<and> isarxiv p' = isarxiv p"
  proof (cases "isarxiv p")
    case False
    with a have "\<not> str_contains (lit ''arxiv'') (str_lower (gs_journal ?row'))" by simp
    from paperInfo_peer[OF this, of name pseudonyms] False show ?thesis by simp
  next
    case True
    with a have v: "str_contains (lit ''arxiv'') (str_lower (gs_journal ?row'))" by simp
    from c True have "reference p = [] @ lit ''arXiv:'' @ (lit '' '' @ str_split (gs_reference row) (lit ''arXiv:'') ! 1)"
      by auto
    then have "sublist (lit ''arXiv:'') (reference p)" unfolding sublist_def by blast
    then have r: "str_contains (lit ''arXiv:'') (gs_reference ?row')" by (simp add: str_contains_iff)
    from paperInfo_preprint[OF v r, of name pseudonyms] True show ?thesis by simp
  qed
  from a b arxiv_lower show ?thesis by simp
qed

theorem classification_idempotent_witness:
  "paperInfo (lit ''A. Name'') []
     \<lparr>gs_title = lit ''T'', gs_reference = lit ''arXiv preprint arXiv:2101.00001, 2021'', gs_year = 2021,
      gs_citations = 0, gs_paperlink = lit ''u'', gs_citeyears = [],
      gs_journal = lit ''arXiv preprint arXiv:2101.00001'', gs_authors = lit ''A Name, B Other''\<rparr>
   = Inr \<lparr>title = lit ''T'', authors = lit ''A. Name, B. Other'',
          reference = lit ''arXiv: 2101.00001, 2021'', journal = lit ''arXiv'', year = 2021,
          citations = 0, url = lit ''u'', citationsyears = [], isarxiv = True\<rparr>
   \<and> str_contains (lit ''arxiv'') (str_lower (lit ''arXiv'')) = True"
proof -
  let ?row = "\<lparr>gs_title = lit ''T'', gs_reference = lit ''arXiv preprint arXiv:2101.00001, 2021'', gs_year = 2021,
      gs_citations = 0, gs_paperlink = lit ''u'', gs_citeyears = [],
      gs_journal = lit ''arXiv preprint arXiv:2101.00001'', gs_authors = lit ''A Name, B Other''\<rparr>"
  let ?p = "\<lparr>title = lit ''T'', authors = lit ''A. Name, B. Other'',
          reference = lit ''arXiv: 2101.00001, 2021'', journal = lit ''arXiv'', year = 2021,
          citations = 0, url = lit ''u'', citationsyears = [], isarxiv = True\<rparr>"
  have l: "str_lower (lit ''arXiv preprint arXiv:2101.00001'') = lit ''arxiv preprint arxiv:2101.00001''"
    by (simp add: case_eval)
  have v: "str_contains (lit ''arxiv'') (str_lower (gs_journal ?row))"
    by (simp add: l[simplified])
  have r: "str_contains (lit ''arXiv:'') (gs_reference ?row)" by simp
  have t: "str_title (lit ''A Name, B Other'') = lit ''A Name, B Other''"
    by (simp add: case_eval)
  have f: "format_names (lit ''A Name, B Other'') = lit ''A. Name, B. Other''"
    by (simp add: format_names_def format_name_def str_split_def case_eval)
  have s: "str_split (lit ''arXiv preprint arXiv:2101.00001, 2021'') (lit ''arXiv:'') ! 1 = lit ''2101.00001, 2021''"
    by (simp add: str_split_def)
  have h: "paperInfo (lit ''A. Name'') [] ?row = Inr ?p"
    using paperInfo_preprint[OF v r, of "(lit ''A. Name'')" "[]"] by (simp add: t[simplified] f[simplified] s[simplified])
  from classification_idempotent[OF h]
  have "str_contains (lit ''arxiv'') (str_lower (journal ?p)) = isarxiv ?p" by (elim conjE)
  then have "str_contains (lit ''arxiv'') (str_lower (lit ''arXiv'')) = True" by simp
  with h show ?thesis by (intro conjI)
qed

text \<open>
  C10. For a row whose venue text contains \<open>"arxiv"\<close> in any letter case, the loop body
  returns a record exactly when the reference contains \<open>"arXiv:"\<close>: then the indexing of
  the split never fails; otherwise it raises IndexError, and a run over any list of rows
  holding such a row ends with that error. The indexing itself succeeds on a reference
  exactly when it contains \<open>"arXiv:"\<close>.
\<close>

theorem arxiv_reference_rewrite_partial:
  assumes "\<exists>ps w ss. gs_journal row = ps @ w @ ss \<and> str_lower w = lit ''arxiv''"
  shows "(\<exists>x. index (str_split r (lit ''arXiv:'')) 1 = Inr x) = str_contains (lit ''arXiv:'') r
    \<and> (\<exists>p. paperInfo name pseudonyms row = Inr p) = str_contains (lit ''arXiv:'') (gs_reference row)
    \<and> (\<not> str_contains (lit ''arXiv:'') (gs_reference row) \<longrightarrow>
          paperInfo name pseudonyms row = Inl IndexError
          \<and> (row \<in> set rows \<longrightarrow> getGSdata rows name pseudonyms = Inl IndexError))"
proof -
  from assms have v: "str_contains (lit ''arxiv'') (str_lower (gs_journal row))"
    unfolding venue_arxiv_iff .
  have a: "(\<exists>x. index (str_split r (lit ''arXiv:'')) 1 = Inr x) = str_contains (lit ''arXiv:'') r"
    by (simp add: index_split_1)
  have b: "(\<exists>p. paperInfo name pseudonyms row = Inr p) = str_contains (lit ''arXiv:'') (gs_reference row)"
    using paperInfo_preprint[OF v, of name pseudonyms] paperInfo_raises[OF v, of name pseudonyms]
    by (cases "str_contains (lit ''arXiv:'') (gs_reference row)") simp_all
  have c: "\<not> str_contains (lit ''arXiv:'') (gs_reference row) \<longrightarrow>
          paperInfo name pseudonyms row = Inl IndexError
          \<and> (row \<in> set rows \<longrightarrow> getGSdata rows name pseudonyms = Inl IndexError)"
    using paperInfo_raises[OF v, of name pseudonyms]
      getGSdata_loop_raises[of row rows name pseudonyms "[]"]
    by (simp add: getGSdata_def)
  from a b c show ?thesis by (intro conjI)
qed

theorem arxiv_reference_rewrite_partial_witness:
  "(lit ''ArXiv e-prints'') = [] @ lit ''ArXiv'' @ lit '' e-prints'' \<and> str_lower (lit ''ArXiv'') = lit ''arxiv''
   \<and> \<not> str_contains (lit ''arXiv:'') (lit ''ArXiv e-prints, 2020'')
   \<and> paperInfo (lit ''A. Name'') []
        \<lparr>gs_title = lit ''T'', gs_reference = lit ''ArXiv e-prints, 2020'', gs_year = 2020,
         gs_citations = 0, gs_paperlink = lit ''u'', gs_citeyears = [],
         gs_journal = lit ''ArXiv e-prints'', gs_authors = lit ''A Name''\<rparr> = Inl IndexError
   \<and> getGSdata
        [\<lparr>gs_title = lit ''T'', gs_reference = lit ''ArXiv e-prints, 2020'', gs_year = 2020,
          gs_citations = 0, gs_paperlink = lit ''u'', gs_citeyears = [],
          gs_journal = lit ''ArXiv e-prints'', gs_authors = lit ''A Name''\<rparr>] (lit ''A. Name'') []
      = Inl IndexError"
proof -
  let ?row = "\<lparr>gs_title = lit ''T'', gs_reference = lit ''ArXiv e-prints, 2020'', gs_year = 2020,
         gs_citations = 0, gs_paperlink = lit ''u'', gs_citeyears = [],
         gs_journal = lit ''ArXiv e-prints'', gs_authors = lit ''A Name''\<rparr>"
  have d: "(lit ''ArXiv e-prints'') = [] @ lit ''ArXiv'' @ lit '' e-prints''" by simp
  have l: "str_lower (lit ''ArXiv'') = lit ''arxiv''"
    by (simp add: case_eval)
  have "gs_journal ?row = [] @ lit ''ArXiv'' @ lit '' e-prints'' \<and> str_lower (lit ''ArXiv'') = lit ''arxiv''"
    using l by simp
  then have h: "\<exists>ps w ss. gs_journal ?row = ps @ w @ ss \<and> str_lower w = lit ''arxiv''"
    by (intro exI)
  have n: "\<not> str_contains (lit ''arXiv:'') (gs_reference ?row)" by simp
  have m: "?row \<in> set [?row]" by simp
  note t = arxiv_reference_rewrite_partial[OF h, of "[]" "(lit ''A. Name'')" "[]" "[?row]"]
  from t n have e: "paperInfo (lit ''A. Name'') [] ?row = Inl IndexError"
    by (elim conjE) (erule (1) impE, elim conjE, assumption)
  from t n m have g: "getGSdata [?row] (lit ''A. Name'') [] = Inl IndexError"
    by (elim conjE) (erule (1) impE, elim conjE, erule (1) impE, assumption)
  from n have n': "\<not> str_contains (lit ''arXiv:'') (lit ''ArXiv e-prints, 2020'')" by simp
  from d l n' e g show ?thesis by (intro conjI)
qed

section \<open>Facts about the loops of the report\<close>

lemma init_journal_counts:
  "journal_counts (init_state js) k =
     (if k \<in> set (map str_lower js)
      then Some \<lparr>jc_count = 0, jc_first_author = 0, jc_last_author = 0\<rparr> else None)"
  by (induction js) (auto simp: init_state_def)

lemma hd_authors_list [simplified]:
  "hd (map str_strip (str_split (authors r) (lit '',''))) = first_entry r"
  by (simp add: first_entry_def hd_map str_split_ne)

lemma last_authors_list [simplified]:
  "last (map str_strip (str_split (authors r) (lit '',''))) = last_entry r"
  by (simp add: last_entry_def last_map str_split_ne)

lemma peer_step_fields:
  "peer_reviewed_count (peer_step name st r) = peer_reviewed_count st + 1"
  "first_author_count (peer_step name st r)
     = first_author_count st + (if first_entry r = name then 1 else 0)"
  "last_author_count (peer_step name st r)
     = last_author_count st + (if last_entry r = name then 1 else 0)"
  "total_citations (peer_step name st r) = total_citations st + citations r"
  "citation_counts (peer_step name st r) = citation_counts st @ [citations r]"
  "latex_snippet (peer_step name st r) = latex_snippet st @ peer_entry name r"
  by (simp_all add: peer_step_def Let_def hd_authors_list last_authors_list)

lemma peer_step_journal_counts:
  "journal_counts (peer_step name st r) k =
     (if k = str_lower (journal r)
      then map_option (\<lambda>jc. \<lparr>jc_count = jc_count jc + 1,
              jc_first_author = jc_first_author jc + (if first_entry r = name then 1 else 0),
              jc_last_author = jc_last_author jc + (if last_entry r = name then 1 else 0)\<rparr>)
             (journal_counts st k)
      else journal_counts st k)"
proof (cases "journal_counts st (str_lower (journal r))")
  case None
  then show ?thesis
    by (simp add: peer_step_def Let_def bump_first_def bump_last_def bump_count_def)
next
  case (Some jc)
  then show ?thesis
    by (simp add: peer_step_def Let_def bump_first_def bump_last_def bump_count_def
        hd_authors_list last_authors_list)
qed

lemma peer_fold_fields:
  "peer_reviewed_count (foldl (peer_step name) (init_state js) rows) = length rows"
  "first_author_count (foldl (peer_step name) (init_state js) rows)
     = length (filter (\<lambda>r. first_entry r = name) rows)"
  "last_author_count (foldl (peer_step name) (init_state js) rows)
     = length (filter (\<lambda>r. last_entry r = name) rows)"
  "total_citations (foldl (peer_step name) (init_state js) rows) = sum_list (map citations rows)"
  "citation_counts (foldl (peer_step name) (init_state js) rows) = map citations rows"
  "latex_snippet (foldl (peer_step name) (init_state js) rows)
     = backslash @ lit ''begin{enumerate}'' @ newline @ concat (map (peer_entry name) rows)"
  by (induction rows rule: rev_induct; simp add: peer_step_fields init_state_def)+

lemma peer_fold_journal_counts:
  "journal_counts (foldl (peer_step name) (init_state js) rows) k =
     (if k \<in> set (map str_lower js)
      then Some \<lparr>jc_count = length (filter (\<lambda>r. str_lower (journal r) = k) rows),
             jc_first_author = length (filter (\<lambda>r. first_entry r = name)
                (filter (\<lambda>r. str_lower (journal r) = k) rows)),
             jc_last_author = length (filter (\<lambda>r. last_entry r = name)
                (filter (\<lambda>r. str_lower (journal r) = k) rows))\<rparr>
      else None)"
proof (induction rows rule: rev_induct)
  case Nil
  then show ?case by (simp add: init_journal_counts)
next
  case (snoc r rows)
  show ?case
  proof (cases "k = str_lower (journal r)")
    case True
    with snoc show ?thesis by (cases "k \<in> set (map str_lower js)") (simp_all add: peer_step_journal_counts)
  next
    case False
    with snoc show ?thesis by (simp add: peer_step_journal_counts)
  qed
qed

lemma peer_loop_journal_counts:
  "journal_counts (peer_loop df name js) (str_lower j) =
     (if str_lower j \<in> set (map str_lower js)
      then Some \<lparr>jc_count = venue_count df j, jc_first_author = venue_first df name j,
             jc_last_author = venue_last df name j\<rparr>
      else None)"
  by (simp add: peer_loop_def peer_fold_journal_counts venue_count_def venue_first_def
      venue_last_def venue_rows_def peer_reviewed_def)

lemma journal_str_phrase:
  "journal_str j \<lparr>jc_count = venue_count df j, jc_first_author = venue_first df name j,
             jc_last_author = venue_last df name j\<rparr> = venue_phrase df name j"
  by (simp add: journal_str_def venue_phrase_def)

lemma journal_report_loop_tracked:
  "set js' \<subseteq> set js \<Longrightarrow>
   journal_report_loop (journal_counts (peer_loop df name js)) js' acc
     = Inr (acc @ map (venue_phrase df name) (filter (\<lambda>j. venue_count df j > 0) js'))"
proof (induction js' arbitrary: acc)
  case Nil
  then show ?case by simp
next
  case (Cons j js')
  then have "str_lower j \<in> set (map str_lower js)" by auto
  then have "journal_counts (peer_loop df name js) (str_lower j)
     = Some \<lparr>jc_count = venue_count df j, jc_first_author = venue_first df name j,
             jc_last_author = venue_last df name j\<rparr>"
    by (simp only: peer_loop_journal_counts if_True)
  with Cons show ?case by (simp add: journal_str_phrase)
qed

lemma report_statistics_eq:
  "report_statistics df name date js =
     Inr (statistics_text (peer_loop df name js)
            (map (venue_phrase df name) (filter (\<lambda>j. venue_count df j > 0) js)) date)"
  by (simp add: report_statistics_def Let_def journal_report_loop_tracked)

lemma peer_loop_fields:
  "peer_reviewed_count (peer_loop df name js) = length (peer_reviewed df)"
  "first_author_count (peer_loop df name js)
     = length (filter (\<lambda>r. first_entry r = name) (peer_reviewed df))"
  "last_author_count (peer_loop df name js)
     = length (filter (\<lambda>r. last_entry r = name) (peer_reviewed df))"
  "total_citations (peer_loop df name js) = sum_list (map citations (peer_reviewed df))"
  "citation_counts (peer_loop df name js) = map citations (peer_reviewed df)"
  "latex_snippet (peer_loop df name js)
     = backslash @ lit ''begin{enumerate}'' @ newline @ concat (map (peer_entry name) (peer_reviewed df))"
  by (simp_all add: peer_loop_def peer_reviewed_def peer_fold_fields)

lemma preprint_fold:
  "foldl (\<lambda>latex_snippet row. latex_snippet @ preprint_entry name row) snippet rows
     = snippet @ concat (map (preprint_entry name) rows)"
  by (induction rows arbitrary: snippet) simp_all

lemma preprint_loop_eq:
  "preprint_loop df name snippet
     = snippet @ concat (map (preprint_entry name) (filter (\<lambda>r. isarxiv r) df))"
  by (simp add: preprint_loop_def preprint_fold)

section \<open>Statistics and rendering\<close>

text \<open>
  C3. After the first loop of the report, the peer-reviewed count is the number of records
  with \<open>isarxiv\<close> false; the first-author (last-author) count is the number of those
  records whose first (last) comma-separated author entry, surrounding whitespace removed,
  equals the name exactly, and neither exceeds the peer-reviewed count; the total of
  citations is the sum of the citations fields of those records, which are also the counts
  the h-index is computed from. Preprints contribute to none of these: the loop gives the
  same result on the record set with its preprints removed.
\<close>

theorem statistics_over_peer_reviewed:
  "peer_reviewed_count (peer_loop df name js) = length (filter (\<lambda>r. \<not> isarxiv r) df)
   \<and> first_author_count (peer_loop df name js)
       = length (filter (\<lambda>r. str_strip (hd (str_split (authors r) (lit '',''))) = name)
           (filter (\<lambda>r. \<not> isarxiv r) df))
   \<and> last_author_count (peer_loop df name js)
       = length (filter (\<lambda>r. str_strip (last (str_split (authors r) (lit '',''))) = name)
           (filter (\<lambda>r. \<not> isarxiv r) df))
   \<and> first_author_count (peer_loop df name js) \<le> peer_reviewed_count (peer_loop df name js)
   \<and> last_author_count (peer_loop df name js) \<le> peer_reviewed_count (peer_loop df name js)
   \<and> total_citations (peer_loop df name js)
       = sum_list (map citations (filter (\<lambda>r. \<not> isarxiv r) df))
   \<and> citation_counts (peer_loop df name js) = map citations (filter (\<lambda>r. \<not> isarxiv r) df)
   \<and> peer_loop df name js = peer_loop (filter (\<lambda>r. \<not> isarxiv r) df) name js"
proof -
  have a: "peer_reviewed_count (peer_loop df name js) = length (filter (\<lambda>r. \<not> isarxiv r) df)"
    by (simp add: peer_loop_fields peer_reviewed_def)
  have b: "first_author_count (peer_loop df name js)
       = length (filter (\<lambda>r. str_strip (hd (str_split (authors r) (lit '',''))) = name)
           (filter (\<lambda>r. \<not> isarxiv r) df))"
    by (simp add: peer_loop_fields peer_reviewed_def first_entry_def)
  have c: "last_author_count (peer_loop df name js)
       = length (filter (\<lambda>r. str_strip (last (str_split (authors r) (lit '',''))) = name)
           (filter (\<lambda>r. \<not> isarxiv r) df))"
    by (simp add: peer_loop_fields peer_reviewed_def last_entry_def)
  have d: "first_author_count (peer_loop df name js) \<le> peer_reviewed_count (peer_loop df name js)"
    unfolding a b by (rule length_filter_le)
  have e: "last_author_count (peer_loop df name js) \<le> peer_reviewed_count (peer_loop df name js)"
    unfolding a c by (rule length_filter_le)
  have f: "total_citations (peer_loop df name js)
       = sum_list (map citations (filter (\<lambda>r. \<not> isarxiv r) df))"
    by (simp add: peer_loop_fields peer_reviewed_def)
  have g: "citation_counts (peer_loop df name js) = map citations (filter (\<lambda>r. \<not> isarxiv r) df)"
    by (simp add: peer_loop_fields peer_reviewed_def)
  have h: "peer_loop df name js = peer_loop (filter (\<lambda>r. \<not> isarxiv r) df) name js"
    by (simp add: peer_loop_def)
  from a b c d e f g h show ?thesis by (intro conjI)
qed

text \<open>
  C6, as amended. The report is the list of the entries of the peer-reviewed records
  followed by the list of the entries of the preprints, each in the order of the record
  set. An entry of the preprint list has the emphasized title, the author line with the
  name in bold and the linked reference with the year; an entry of the peer-reviewed list
  is the same text built from the title-cased reference, where the preprint list prints
  the reference as stored.
\<close>

theorem preprint_entry_format:
  "peer_entry name r = preprint_entry name (r\<lparr>reference := str_title (reference r)\<rparr>)
   \<and> preprint_entry name r =
       (lit '' '') @ backslash @ lit ''item '' @ backslash @ lit ''emph{'' @ title r @ lit ''}.''
         @ backslash @ backslash @ lit '' '' @ newline
       @ lit ''{'' @ str_replace (authors r) name (backslash @ lit ''textbf{'' @ name @ lit ''}'') @ lit ''}''
         @ backslash @ backslash @ lit '' '' @ newline
       @ lit ''  '' @ backslash @ lit ''href{'' @ url r @ lit ''}{{'' @ reference r @ lit '' (''
         @ show_int (year r) @ lit '')}}'' @ newline @ newline
   \<and> report_snippet df name js =
       backslash @ lit ''begin{enumerate}'' @ newline
       @ concat (map (peer_entry name) (filter (\<lambda>r. \<not> isarxiv r) df))
       @ backslash @ lit ''end{enumerate}'' @ newline
       @ newline @ backslash @ lit ''begin{center}'' @ newline
       @ backslash @ lit ''textsc{Preprints}'' @ newline @ backslash @ lit ''end{center}'' @ newline
       @ backslash @ lit ''begin{enumerate}'' @ newline
       @ concat (map (preprint_entry name) (filter (\<lambda>r. isarxiv r) df))
       @ backslash @ lit ''end{enumerate}'' @ newline"
proof -
  have a: "peer_entry name r = preprint_entry name (r\<lparr>reference := str_title (reference r)\<rparr>)"
    by (simp add: peer_entry_def preprint_entry_def Let_def)
  have b: "preprint_entry name r =
       (lit '' '') @ backslash @ lit ''item '' @ backslash @ lit ''emph{'' @ title r @ lit ''}.''
         @ backslash @ backslash @ lit '' '' @ newline
       @ lit ''{'' @ str_replace (authors r) name (backslash @ lit ''textbf{'' @ name @ lit ''}'') @ lit ''}''
         @ backslash @ backslash @ lit '' '' @ newline
       @ lit ''  '' @ backslash @ lit ''href{'' @ url r @ lit ''}{{'' @ reference r @ lit '' (''
         @ show_int (year r) @ lit '')}}'' @ newline @ newline"
    by (simp add: preprint_entry_def Let_def)
  have c: "report_snippet df name js =
       backslash @ lit ''begin{enumerate}'' @ newline
       @ concat (map (peer_entry name) (filter (\<lambda>r. \<not> isarxiv r) df))
       @ backslash @ lit ''end{enumerate}'' @ newline
       @ newline @ backslash @ lit ''begin{center}'' @ newline
       @ backslash @ lit ''textsc{Preprints}'' @ newline @ backslash @ lit ''end{center}'' @ newline
       @ backslash @ lit ''begin{enumerate}'' @ newline
       @ concat (map (preprint_entry name) (filter (\<lambda>r. isarxiv r) df))
       @ backslash @ lit ''end{enumerate}'' @ newline"
    by (simp add: report_snippet_def Let_def peer_loop_fields peer_reviewed_def preprint_loop_eq)
  from a b c show ?thesis by (intro conjI)
qed

text \<open>
  C6 as stated fails on a preprint whose reference is \<open>"arXiv: 2101.00001"\<close>: its entry in
  the preprint list keeps that reference, the format of the peer-reviewed list would print
  \<open>"Arxiv: 2101.00001"\<close>.
\<close>

theorem preprint_entry_counterexample:
  "preprint_entry (lit ''A. Name'')
     \<lparr>title = lit ''T'', authors = lit ''A. Name, B. Other'', reference = lit ''arXiv: 2101.00001'',
      journal = lit ''arXiv'', year = 2021, citations = 0, url = lit ''u'', citationsyears = [],
      isarxiv = True\<rparr>
   = lit '' '' @ backslash @ lit ''item '' @ backslash @ lit ''emph{T}.'' @ backslash @ backslash @ lit '' '' @ newline
     @ lit ''{'' @ backslash @ lit ''textbf{A. Name}, B. Other}'' @ backslash @ backslash @ lit '' '' @ newline
     @ lit ''  '' @ backslash @ lit ''href{u}{{arXiv: 2101.00001 (2021)}}'' @ newline @ newline
   \<and> peer_entry (lit ''A. Name'')
     \<lparr>title = lit ''T'', authors = lit ''A. Name, B. Other'', reference = lit ''arXiv: 2101.00001'',
      journal = lit ''arXiv'', year = 2021, citations = 0, url = lit ''u'', citationsyears = [],
      isarxiv = True\<rparr>
   = lit '' '' @ backslash @ lit ''item '' @ backslash @ lit ''emph{T}.'' @ backslash @ backslash @ lit '' '' @ newline
     @ lit ''{'' @ backslash @ lit ''textbf{A. Name}, B. Other}'' @ backslash @ backslash @ lit '' '' @ newline
     @ lit ''  '' @ backslash @ lit ''href{u}{{Arxiv: 2101.00001 (2021)}}'' @ newline @ newline
   \<and> preprint_entry (lit ''A. Name'')
     \<lparr>title = lit ''T'', authors = lit ''A. Name, B. Other'', reference = lit ''arXiv: 2101.00001'',
      journal = lit ''arXiv'', year = 2021, citations = 0, url = lit ''u'', citationsyears = [],
      isarxiv = True\<rparr>
   \<noteq> peer_entry (lit ''A. Name'')
     \<lparr>title = lit ''T'', authors = lit ''A. Name, B. Other'', reference = lit ''arXiv: 2101.00001'',
      journal = lit ''arXiv'', year = 2021, citations = 0, url = lit ''u'', citationsyears = [],
      isarxiv = True\<rparr>"
proof -
  let ?r = "\<lparr>title = lit ''T'', authors = lit ''A. Name, B. Other'', reference = lit ''arXiv: 2101.00001'',
      journal = lit ''arXiv'', year = 2021, citations = 0, url = lit ''u'', citationsyears = [],
      isarxiv = True\<rparr>"
  have y: "show_int 2021 = lit ''2021''"
    by (simp add: show_int_def show_nat.simps[of 2021] show_nat.simps[of 202]
        show_nat.simps[of 20] show_nat.simps[of 2] digit_char_def char_of_eq_iff)
  have t: "str_title (lit ''arXiv: 2101.00001'') = lit ''Arxiv: 2101.00001''"
    by (simp add: case_eval)
  have b: "str_replace (lit ''A. Name, B. Other'') (lit ''A. Name'') (backslash @ lit ''textbf{A. Name}'')
     = backslash @ lit ''textbf{A. Name}, B. Other''"
    by (simp add: str_replace_def)
  have p: "preprint_entry (lit ''A. Name'') ?r
   = lit '' '' @ backslash @ lit ''item '' @ backslash @ lit ''emph{T}.'' @ backslash @ backslash @ lit '' '' @ newline
     @ lit ''{'' @ backslash @ lit ''textbf{A. Name}, B. Other}'' @ backslash @ backslash @ lit '' '' @ newline
     @ lit ''  '' @ backslash @ lit ''href{u}{{arXiv: 2101.00001 (2021)}}'' @ newline @ newline"
    by (simp add: preprint_entry_def Let_def y[simplified] b[simplified])
  have q: "peer_entry (lit ''A. Name'') ?r
   = lit '' '' @ backslash @ lit ''item '' @ backslash @ lit ''emph{T}.'' @ backslash @ backslash @ lit '' '' @ newline
     @ lit ''{'' @ backslash @ lit ''textbf{A. Name}, B. Other}'' @ backslash @ backslash @ lit '' '' @ newline
     @ lit ''  '' @ backslash @ lit ''href{u}{{Arxiv: 2101.00001 (2021)}}'' @ newline @ newline"
    by (simp add: peer_entry_def Let_def y[simplified] t[simplified] b[simplified])
  have n: "preprint_entry (lit ''A. Name'') ?r \<noteq> peer_entry (lit ''A. Name'') ?r"
    unfolding p q by simp
  from p q n show ?thesis by (intro conjI)
qed

lemma show_nat_digit: "n < 10 \<Longrightarrow> show_nat n = [digit_char n]"
  by (simp add: show_nat.simps)

lemma show_small [simplified]:
  "show_nat 0 = lit ''0''" "show_nat 1 = lit ''1''" "show_nat 2 = lit ''2''" "show_nat 3 = lit ''3''"
  "show_int 9 = lit ''9''" "show_nat (Suc 0) = lit ''1''"
  by (simp_all add: show_int_def show_nat_digit digit_char_def char_of_eq_iff)

lemma default_journals_lower [simplified]:
  "filter (\<lambda>j. str_lower j = str_lower (lit ''Nature Photonics'')) default_journals
     = [lit ''Nature Photonics'']"
  unfolding default_journals_def by (simp add: case_eval)

lemma scenario_counts:
  assumes c: "map citations df = [5, 3, 1]"
    and v: "\<forall>r \<in> set df. \<not> isarxiv r \<and> journal r = lit ''Nature Photonics''"
  shows "peer_reviewed df = df"
    and "venue_rows df j = (if str_lower j = str_lower (lit ''Nature Photonics'') then df else [])"
    and "length df = 3"
proof -
  from v show p: "peer_reviewed df = df" by (simp add: peer_reviewed_def)
  from v have "filter (\<lambda>r. str_lower (journal r) = str_lower j) df
      = filter (\<lambda>r. str_lower (lit ''Nature Photonics'') = str_lower j) df"
    by (intro filter_cong) auto
  then show "venue_rows df j = (if str_lower j = str_lower (lit ''Nature Photonics'') then df else [])"
    by (auto simp: venue_rows_def p)
  from c have "length (map citations df) = 3" by simp
  then show "length df = 3" by simp
qed

lemma scenario_text:
  assumes c: "map citations df = [5, 3, 1]"
    and v: "\<forall>r \<in> set df. \<not> isarxiv r \<and> journal r = lit ''Nature Photonics''"
    and f: "length (filter (\<lambda>r. first_entry r = name) df) = 1"
    and l: "filter (\<lambda>r. last_entry r = name) df = []"
  shows "report_statistics df name date default_journals =
     Inr (newline @ lit ''3 peer-reviewed publications, 1 papers as first author, 0 papers as last author.''
          @ newline @ lit ''These include 3 Nature Photonics (1 first author).'' @ newline
          @ backslash @ lit ''textbf{h-index: 2. Citations: 9} (Google Scholar, as of '' @ date @ lit '').'')"
proof -
  note s = scenario_counts[OF c v]
  have vc: "venue_count df j = (if str_lower j = str_lower (lit ''Nature Photonics'') then 3 else 0)" for j
    by (simp add: venue_count_def s)
  have "filter (\<lambda>j. venue_count df j > 0) default_journals
      = filter (\<lambda>j. str_lower j = str_lower (lit ''Nature Photonics'')) default_journals"
    by (intro filter_cong) (simp_all add: vc)
  then have js: "filter (\<lambda>j. venue_count df j > 0) default_journals = [lit ''Nature Photonics'']"
    by (simp add: default_journals_lower)
  have ph: "venue_phrase df name (lit ''Nature Photonics'') = lit ''3 Nature Photonics (1 first author)''"
    by (simp add: venue_phrase_def venue_count_def venue_first_def venue_last_def s f l show_small)
  have h: "h_index [5, 3, 1] = 2" by (simp add: h_index_def sorted_citations_def)
  have st: "peer_reviewed_count (peer_loop df name default_journals) = 3"
    "first_author_count (peer_loop df name default_journals) = 1"
    "last_author_count (peer_loop df name default_journals) = 0"
    "citation_counts (peer_loop df name default_journals) = [5, 3, 1]"
    "total_citations (peer_loop df name default_journals) = 9"
    using c by (simp_all add: peer_loop_fields s f l)
  show ?thesis
    unfolding report_statistics_eq js
    by (simp add: statistics_text_def st ph[simplified] h show_small)
qed

lemma scenario_text_last:
  assumes c: "map citations df = [5, 3, 1]"
    and v: "\<forall>r \<in> set df. \<not> isarxiv r \<and> journal r = lit ''Nature Photonics''"
    and f: "length (filter (\<lambda>r. first_entry r = name) df) = 1"
    and l: "length (filter (\<lambda>r. last_entry r = name) df) = 1"
  shows "report_statistics df name date default_journals =
     Inr (newline @ lit ''3 peer-reviewed publications, 1 papers as first author, 1 papers as last author.''
          @ newline @ lit ''These include 3 Nature Photonics (1 first author, 1 last author).'' @ newline
          @ backslash @ lit ''textbf{h-index: 2. Citations: 9} (Google Scholar, as of '' @ date @ lit '').'')"
proof -
  note s = scenario_counts[OF c v]
  have vc: "venue_count df j = (if str_lower j = str_lower (lit ''Nature Photonics'') then 3 else 0)" for j
    by (simp add: venue_count_def s)
  have "filter (\<lambda>j. venue_count df j > 0) default_journals
      = filter (\<lambda>j. str_lower j = str_lower (lit ''Nature Photonics'')) default_journals"
    by (intro filter_cong) (simp_all add: vc)
  then have js: "filter (\<lambda>j. venue_count df j > 0) default_journals = [lit ''Nature Photonics'']"
    by (simp add: default_journals_lower)
  have ph: "venue_phrase df name (lit ''Nature Photonics'') = lit ''3 Nature Photonics (1 first author, 1 last author)''"
    by (simp add: venue_phrase_def venue_count_def venue_first_def venue_last_def s f l show_small)
  have h: "h_index [5, 3, 1] = 2" by (simp add: h_index_def sorted_citations_def)
  have st: "peer_reviewed_count (peer_loop df name default_journals) = 3"
    "first_author_count (peer_loop df name default_journals) = 1"
    "last_author_count (peer_loop df name default_journals) = 1"
    "citation_counts (peer_loop df name default_journals) = [5, 3, 1]"
    "total_citations (peer_loop df name default_journals) = 9"
    using c by (simp_all add: peer_loop_fields s f l)
  show ?thesis
    unfolding report_statistics_eq js
    by (simp add: statistics_text_def st ph[simplified] h show_small)
qed

lemma contains_inside: "str_contains x (ps @ x @ ss)"
  by (simp add: str_contains_iff)

text \<open>
  C7, as amended. The statistics paragraph never fails on a lookup, and its venue phrases
  are those of the tracked venues, in their order, whose count of matching peer-reviewed
  records is not zero: a tracked venue appears exactly when that count is positive. The
  phrase of a venue is \<open>venue_phrase\<close>: the count, a space and the venue name as
  configured, followed by the first-author and last-author sub-counts in parentheses, each
  present exactly when it is not zero. The phrases are joined by \<open>", "\<close> after
  \<open>"These include "\<close>, and the sentence is left out when there is none. In the scenario
  of three peer-reviewed records with citations 5, 3 and 1, all from Nature Photonics, one
  of them first-authored by the name, and none of them last-authored by the name, the
  paragraph is the text below and contains the three phrases of the specification.
\<close>

theorem statistics_paragraph_venues:
  "report_statistics df name date js =
     Inr (statistics_text (peer_loop df name js)
            (map (venue_phrase df name) (filter (\<lambda>j. venue_count df j > 0) js)) date)
   \<and> statistics_text st journal_report date =
       newline @ show_nat (peer_reviewed_count st) @ lit '' peer-reviewed publications, ''
       @ show_nat (first_author_count st) @ lit '' papers as first author, ''
       @ show_nat (last_author_count st) @ lit '' papers as last author.'' @ newline
       @ (if journal_report \<noteq> []
          then lit ''These include '' @ str_join (lit '', '') journal_report @ lit ''.'' @ newline else [])
       @ backslash @ lit ''textbf{h-index: '' @ show_nat (h_index (citation_counts st))
       @ lit ''. Citations: '' @ show_int (total_citations st)
       @ lit ''} (Google Scholar, as of '' @ date @ lit '').''
   \<and> (map citations df = [5, 3, 1]
        \<and> (\<forall>r \<in> set df. \<not> isarxiv r \<and> journal r = lit ''Nature Photonics'')
        \<and> length (filter (\<lambda>r. first_entry r = name) df) = 1
        \<and> filter (\<lambda>r. last_entry r = name) df = []
      \<longrightarrow> report_statistics df name date default_journals =
            Inr (newline @ lit ''3 peer-reviewed publications, 1 papers as first author, 0 papers as last author.''
                 @ newline @ lit ''These include 3 Nature Photonics (1 first author).'' @ newline
                 @ backslash @ lit ''textbf{h-index: 2. Citations: 9} (Google Scholar, as of ''
                 @ date @ lit '').'')
          \<and> str_contains (lit ''3 peer-reviewed publications, 1 papers as first author'')
               (newline @ lit ''3 peer-reviewed publications, 1 papers as first author, 0 papers as last author.''
                 @ newline @ lit ''These include 3 Nature Photonics (1 first author).'' @ newline
                 @ backslash @ lit ''textbf{h-index: 2. Citations: 9} (Google Scholar, as of ''
                 @ date @ lit '').'')
          \<and> str_contains (lit ''3 Nature Photonics (1 first author)'')
               (newline @ lit ''3 peer-reviewed publications, 1 papers as first author, 0 papers as last author.''
                 @ newline @ lit ''These include 3 Nature Photonics (1 first author).'' @ newline
                 @ backslash @ lit ''textbf{h-index: 2. Citations: 9} (Google Scholar, as of ''
                 @ date @ lit '').'')
          \<and> str_contains (lit ''h-index: 2'')
               (newline @ lit ''3 peer-reviewed publications, 1 papers as first author, 0 papers as last author.''
                 @ newline @ lit ''These include 3 Nature Photonics (1 first author).'' @ newline
                 @ backslash @ lit ''textbf{h-index: 2. Citations: 9} (Google Scholar, as of ''
                 @ date @ lit '').''))"
proof -
  let ?T = "newline @ lit ''3 peer-reviewed publications, 1 papers as first author, 0 papers as last author.''
                 @ newline @ lit ''These include 3 Nature Photonics (1 first author).'' @ newline
                 @ backslash @ lit ''textbf{h-index: 2. Citations: 9} (Google Scholar, as of ''
                 @ date @ lit '').''"
  have a: "report_statistics df name date js =
     Inr (statistics_text (peer_loop df name js)
            (map (venue_phrase df name) (filter (\<lambda>j. venue_count df j > 0) js)) date)"
    by (rule report_statistics_eq)
  have b: "statistics_text st journal_report date =
       newline @ show_nat (peer_reviewed_count st) @ lit '' peer-reviewed publications, ''
       @ show_nat (first_author_count st) @ lit '' papers as first author, ''
       @ show_nat (last_author_count st) @ lit '' papers as last author.'' @ newline
       @ (if journal_report \<noteq> []
          then lit ''These include '' @ str_join (lit '', '') journal_report @ lit ''.'' @ newline else [])
       @ backslash @ lit ''textbf{h-index: '' @ show_nat (h_index (citation_counts st))
       @ lit ''. Citations: '' @ show_int (total_citations st)
       @ lit ''} (Google Scholar, as of '' @ date @ lit '').''"
    by (simp add: statistics_text_def)
  have c1: "str_contains (lit ''3 peer-reviewed publications, 1 papers as first author'') ?T"
  proof -
    have "?T = newline @ lit ''3 peer-reviewed publications, 1 papers as first author''
        @ (lit '', 0 papers as last author.'' @ newline
           @ lit ''These include 3 Nature Photonics (1 first author).'' @ newline
           @ backslash @ lit ''textbf{h-index: 2. Citations: 9} (Google Scholar, as of '' @ date @ lit '').'')"
      by simp
    then show ?thesis by (simp only: contains_inside)
  qed
  have c2: "str_contains (lit ''3 Nature Photonics (1 first author)'') ?T"
  proof -
    have "?T = (newline @ lit ''3 peer-reviewed publications, 1 papers as first author, 0 papers as last author.''
                 @ newline @ lit ''These include '') @ lit ''3 Nature Photonics (1 first author)''
        @ (lit ''.'' @ newline
           @ backslash @ lit ''textbf{h-index: 2. Citations: 9} (Google Scholar, as of '' @ date @ lit '').'')"
      by simp
    then show ?thesis by (simp only: contains_inside)
  qed
  have c3: "str_contains (lit ''h-index: 2'') ?T"
  proof -
    have "?T = (newline @ lit ''3 peer-reviewed publications, 1 papers as first author, 0 papers as last author.''
                 @ newline @ lit ''These include 3 Nature Photonics (1 first author).'' @ newline
                 @ backslash @ lit ''textbf{'') @ lit ''h-index: 2''
        @ (lit ''. Citations: 9} (Google Scholar, as of '' @ date @ lit '').'')"
      by simp
    then show ?thesis by (simp only: contains_inside)
  qed
  have d: "map citations df = [5, 3, 1]
        \<and> (\<forall>r \<in> set df. \<not> isarxiv r \<and> journal r = lit ''Nature Photonics'')
        \<and> length (filter (\<lambda>r. first_entry r = name) df) = 1
        \<and> filter (\<lambda>r. last_entry r = name) df = []
      \<longrightarrow> report_statistics df name date default_journals = Inr ?T
          \<and> str_contains (lit ''3 peer-reviewed publications, 1 papers as first author'') ?T
          \<and> str_contains (lit ''3 Nature Photonics (1 first author)'') ?T
          \<and> str_contains (lit ''h-index: 2'') ?T"
  proof (intro impI conjI)
    assume h: "map citations df = [5, 3, 1]
        \<and> (\<forall>r \<in> set df. \<not> isarxiv r \<and> journal r = lit ''Nature Photonics'')
        \<and> length (filter (\<lambda>r. first_entry r = name) df) = 1
        \<and> filter (\<lambda>r. last_entry r = name) df = []"
    then have h1: "map citations df = [5, 3, 1]"
      and h2: "\<forall>r \<in> set df. \<not> isarxiv r \<and> journal r = lit ''Nature Photonics''"
      and h3: "length (filter (\<lambda>r. first_entry r = name) df) = 1"
      and h4: "filter (\<lambda>r. last_entry r = name) df = []"
      by blast+
    show "report_statistics df name date default_journals = Inr ?T"
      by (rule scenario_text[OF h1 h2 h3 h4])
  qed (rule c1 c2 c3)+
  from a b d show ?thesis by (intro conjI)
qed

theorem statistics_paragraph_venues_witness:
  "map citations
     [\<lparr>title = lit ''T1'', authors = lit ''A. Name, B. Other'', reference = lit ''Nature Photonics 1 (2), 3'',
       journal = lit ''Nature Photonics'', year = 2020, citations = 5, url = lit ''u1'',
       citationsyears = [], isarxiv = False\<rparr>,
      \<lparr>title = lit ''T2'', authors = lit ''B. Other, A. Name, C. Third'', reference = lit ''Nature Photonics 4'',
       journal = lit ''Nature Photonics'', year = 2021, citations = 3, url = lit ''u2'',
       citationsyears = [], isarxiv = False\<rparr>,
      \<lparr>title = lit ''T3'', authors = lit ''B. Other, C. Third'', reference = lit ''Nature Photonics 5'',
       journal = lit ''Nature Photonics'', year = 2022, citations = 1, url = lit ''u3'',
       citationsyears = [], isarxiv = False\<rparr>] = [5, 3, 1]
   \<and> report_statistics
     [\<lparr>title = lit ''T1'', authors = lit ''A. Name, B. Other'', reference = lit ''Nature Photonics 1 (2), 3'',
       journal = lit ''Nature Photonics'', year = 2020, citations = 5, url = lit ''u1'',
       citationsyears = [], isarxiv = False\<rparr>,
      \<lparr>title = lit ''T2'', authors = lit ''B. Other, A. Name, C. Third'', reference = lit ''Nature Photonics 4'',
       journal = lit ''Nature Photonics'', year = 2021, citations = 3, url = lit ''u2'',
       citationsyears = [], isarxiv = False\<rparr>,
      \<lparr>title = lit ''T3'', authors = lit ''B. Other, C. Third'', reference = lit ''Nature Photonics 5'',
       journal = lit ''Nature Photonics'', year = 2022, citations = 1, url = lit ''u3'',
       citationsyears = [], isarxiv = False\<rparr>]
     (lit ''A. Name'') (lit ''January 01, 2025'') default_journals
   = Inr (newline @ lit ''3 peer-reviewed publications, 1 papers as first author, 0 papers as last author.''
          @ newline @ lit ''These include 3 Nature Photonics (1 first author).'' @ newline
          @ backslash @ lit ''textbf{h-index: 2. Citations: 9} (Google Scholar, as of January 01, 2025).'')"
proof -
  let ?r1 = "\<lparr>title = lit ''T1'', authors = lit ''A. Name, B. Other'', reference = lit ''Nature Photonics 1 (2), 3'',
       journal = lit ''Nature Photonics'', year = 2020, citations = 5, url = lit ''u1'',
       citationsyears = [], isarxiv = False\<rparr>"
  let ?r2 = "\<lparr>title = lit ''T2'', authors = lit ''B. Other, A. Name, C. Third'', reference = lit ''Nature Photonics 4'',
       journal = lit ''Nature Photonics'', year = 2021, citations = 3, url = lit ''u2'',
       citationsyears = [], isarxiv = False\<rparr>"
  let ?r3 = "\<lparr>title = lit ''T3'', authors = lit ''B. Other, C. Third'', reference = lit ''Nature Photonics 5'',
       journal = lit ''Nature Photonics'', year = 2022, citations = 1, url = lit ''u3'',
       citationsyears = [], isarxiv = False\<rparr>"
  let ?df = "[?r1, ?r2, ?r3]"
  have e: "first_entry ?r1 = lit ''A. Name''" "first_entry ?r2 = lit ''B. Other''"
    "first_entry ?r3 = lit ''B. Other''" "last_entry ?r1 = lit ''B. Other''"
    "last_entry ?r2 = lit ''C. Third''" "last_entry ?r3 = lit ''C. Third''"
    by (simp_all add: first_entry_def last_entry_def str_split_def str_strip_def isspace_def)
  have h1: "map citations ?df = [5, 3, 1]" by simp
  have h2: "\<forall>r \<in> set ?df. \<not> isarxiv r \<and> journal r = lit ''Nature Photonics''" by simp
  have h3: "length (filter (\<lambda>r. first_entry r = lit ''A. Name'') ?df) = 1" by (simp add: e[simplified])
  have h4: "filter (\<lambda>r. last_entry r = lit ''A. Name'') ?df = []" by (simp add: e[simplified])
  from h1 h2 h3 h4 have h: "map citations ?df = [5, 3, 1]
        \<and> (\<forall>r \<in> set ?df. \<not> isarxiv r \<and> journal r = lit ''Nature Photonics'')
        \<and> length (filter (\<lambda>r. first_entry r = lit ''A. Name'') ?df) = 1
        \<and> filter (\<lambda>r. last_entry r = lit ''A. Name'') ?df = []"
    by (intro conjI)
  note t = statistics_paragraph_venues[of ?df "(lit ''A. Name'')" "(lit ''January 01, 2025'')" "[]" undefined "[]",
      THEN conjunct2, THEN conjunct2, THEN mp, OF h, THEN conjunct1]
  from t have "report_statistics ?df (lit ''A. Name'') (lit ''January 01, 2025'') default_journals
    = Inr (newline @ lit ''3 peer-reviewed publications, 1 papers as first author, 0 papers as last author.''
          @ newline @ lit ''These include 3 Nature Photonics (1 first author).'' @ newline
          @ backslash @ lit ''textbf{h-index: 2. Citations: 9} (Google Scholar, as of January 01, 2025).'')"
    by simp
  with h1 show ?thesis by (intro conjI)
qed

text \<open>
  C7 as stated fails in its scenario when the first-authored record has the name as its
  only author: that record is last-authored by the name as well, and the phrase of the
  venue reads \<open>"3 Nature Photonics (1 first author, 1 last author)"\<close>, which does not
  contain \<open>"3 Nature Photonics (1 first author)"\<close>.
\<close>

theorem statistics_scenario_counterexample:
  "map citations
     [\<lparr>title = lit ''T1'', authors = lit ''A. Name'', reference = lit ''Nature Photonics 1 (2), 3'',
       journal = lit ''Nature Photonics'', year = 2020, citations = 5, url = lit ''u1'',
       citationsyears = [], isarxiv = False\<rparr>,
      \<lparr>title = lit ''T2'', authors = lit ''B. Other, C. Third'', reference = lit ''Nature Photonics 4'',
       journal = lit ''Nature Photonics'', year = 2021, citations = 3, url = lit ''u2'',
       citationsyears = [], isarxiv = False\<rparr>,
      \<lparr>title = lit ''T3'', authors = lit ''B. Other, C. Third'', reference = lit ''Nature Photonics 5'',
       journal = lit ''Nature Photonics'', year = 2022, citations = 1, url = lit ''u3'',
       citationsyears = [], isarxiv = False\<rparr>] = [5, 3, 1]
   \<and> report_statistics
     [\<lparr>title = lit ''T1'', authors = lit ''A. Name'', reference = lit ''Nature Photonics 1 (2), 3'',
       journal = lit ''Nature Photonics'', year = 2020, citations = 5, url = lit ''u1'',
       citationsyears = [], isarxiv = False\<rparr>,
      \<lparr>title = lit ''T2'', authors = lit ''B. Other, C. Third'', reference = lit ''Nature Photonics 4'',
       journal = lit ''Nature Photonics'', year = 2021, citations = 3, url = lit ''u2'',
       citationsyears = [], isarxiv = False\<rparr>,
      \<lparr>title = lit ''T3'', authors = lit ''B. Other, C. Third'', reference = lit ''Nature Photonics 5'',
       journal = lit ''Nature Photonics'', year = 2022, citations = 1, url = lit ''u3'',
       citationsyears = [], isarxiv = False\<rparr>]
     (lit ''A. Name'') (lit ''January 01, 2025'') default_journals
   = Inr (newline @ lit ''3 peer-reviewed publications, 1 papers as first author, 1 papers as last author.''
          @ newline @ lit ''These include 3 Nature Photonics (1 first author, 1 last author).'' @ newline
          @ backslash @ lit ''textbf{h-index: 2. Citations: 9} (Google Scholar, as of January 01, 2025).'')
   \<and> \<not> str_contains (lit ''3 Nature Photonics (1 first author)'')
         (newline @ lit ''3 peer-reviewed publications, 1 papers as first author, 1 papers as last author.''
          @ newline @ lit ''These include 3 Nature Photonics (1 first author, 1 last author).'' @ newline
          @ backslash @ lit ''textbf{h-index: 2. Citations: 9} (Google Scholar, as of January 01, 2025).'')"
proof -
  let ?r1 = "\<lparr>title = lit ''T1'', authors = lit ''A. Name'', reference = lit ''Nature Photonics 1 (2), 3'',
       journal = lit ''Nature Photonics'', year = 2020, citations = 5, url = lit ''u1'',
       citationsyears = [], isarxiv = False\<rparr>"
  let ?r2 = "\<lparr>title = lit ''T2'', authors = lit ''B. Other, C. Third'', reference = lit ''Nature Photonics 4'',
       journal = lit ''Nature Photonics'', year = 2021, citations = 3, url = lit ''u2'',
       citationsyears = [], isarxiv = False\<rparr>"
  let ?r3 = "\<lparr>title = lit ''T3'', authors = lit ''B. Other, C. Third'', reference = lit ''Nature Photonics 5'',
       journal = lit ''Nature Photonics'', year = 2022, citations = 1, url = lit ''u3'',
       citationsyears = [], isarxiv = False\<rparr>"
  let ?df = "[?r1, ?r2, ?r3]"
  have e: "first_entry ?r1 = lit ''A. Name''" "first_entry ?r2 = lit ''B. Other''"
    "first_entry ?r3 = lit ''B. Other''" "last_entry ?r1 = lit ''A. Name''"
    "last_entry ?r2 = lit ''C. Third''" "last_entry ?r3 = lit ''C. Third''"
    by (simp_all add: first_entry_def last_entry_def str_split_def str_strip_def isspace_def)
  have h1: "map citations ?df = [5, 3, 1]" by simp
  have h2: "\<forall>r \<in> set ?df. \<not> isarxiv r \<and> journal r = lit ''Nature Photonics''" by simp
  have h3: "length (filter (\<lambda>r. first_entry r = lit ''A. Name'') ?df) = 1"
    by (simp add: e[simplified])
  have h4: "length (filter (\<lambda>r. last_entry r = lit ''A. Name'') ?df) = 1"
    by (simp add: e[simplified])
  from scenario_text_last[OF h1 h2 h3 h4, of "lit ''January 01, 2025''"]
  have t: "report_statistics ?df (lit ''A. Name'') (lit ''January 01, 2025'') default_journals
   = Inr (newline @ lit ''3 peer-reviewed publications, 1 papers as first author, 1 papers as last author.''
          @ newline @ lit ''These include 3 Nature Photonics (1 first author, 1 last author).'' @ newline
          @ backslash @ lit ''textbf{h-index: 2. Citations: 9} (Google Scholar, as of January 01, 2025).'')"
    by simp
  have n: "\<not> str_contains (lit ''3 Nature Photonics (1 first author)'')
         (newline @ lit ''3 peer-reviewed publications, 1 papers as first author, 1 papers as last author.''
          @ newline @ lit ''These include 3 Nature Photonics (1 first author, 1 last author).'' @ newline
          @ backslash @ lit ''textbf{h-index: 2. Citations: 9} (Google Scholar, as of January 01, 2025).'')"
    by simp
  from h1 t n show ?thesis by (intro conjI)
qed

end
